theory Spec2Isabelle
  imports Complex_Main "HOL-Library.Word"
begin

section \<open>Values exchanged with the plotting library\<close>

text \<open>
  The module \<^verbatim>\<open>axescache.py\<close> holds two classes, \<^verbatim>\<open>RenderCapture\<close> and
  \<^verbatim>\<open>AxesCache\<close>. Both work on objects of matplotlib: an \<^verbatim>\<open>Axes\<close>, a renderer
  with an RGBA buffer, artists. Those objects are records here, holding the
  attributes the module reads or writes. Python floats are read as real numbers,
  \<^verbatim>\<open>uint8\<close> as 8-bit words, numpy's 64-bit integers as integers with the
  wrap-around written out, object identity as a natural number.
\<close>

type_synonym byte = "8 word"
type_synonym point = "real \<times> real"
type_synonym limits = "real \<times> real"

datatype error = IndexError | ValueError | TypeError | HostError string

text \<open>
  A numpy array of two axes with its shape: an array keeps its number of columns
  also when it has no row. The pixel buffer is such an array of cells of 4 bytes.
\<close>

record 'a ndarray =
  nrows :: nat
  ncols :: nat
  cells :: "'a list list"

type_synonym image = "byte list ndarray"

record Renderer =
  height :: nat
  width :: nat
  buffer_rgba :: "byte list"

record QuadMesh =
  mesh_id :: nat
  mesh_X :: "real list"
  mesh_Y :: "real list"
  mesh_C :: "byte ndarray"
  cmap :: string

record AxesImage =
  origin :: string
  interpolation :: string
  data :: image
  extent :: "real \<times> real \<times> real \<times> real"

datatype draw_handler = Axes_draw_method | AxesCache_draw_method

text \<open>
  \<^verbatim>\<open>axes.transData\<close> is a live object: what it computes follows the scales and the
  view limits the axes have when it is applied. So the two transforms are functions
  of those, and \<open>view\<close> below reads them off the axes. \<open>autoscale_limits\<close> is the
  answer of matplotlib's \<^verbatim>\<open>autoscale_view\<close> once a mesh over given positions has
  been added: the limits it settles on.
\<close>

type_synonym view = "(string \<times> string) \<times> (limits \<times> limits)"

record Axes =
  xlim :: limits
  ylim :: limits
  xscale :: string
  yscale :: string
  autoscalex_on :: bool
  autoscaley_on :: bool
  transData :: "view \<Rightarrow> point \<Rightarrow> point"
  transData_inverted :: "view \<Rightarrow> point \<Rightarrow> point"
  autoscale_limits :: "real list \<Rightarrow> real list \<Rightarrow> limits \<times> limits"
  collections :: "nat list"
  spines :: "(string \<times> nat) list"
  draw :: draw_handler
  next_id :: nat

section \<open>The numpy and list operations the module uses\<close>

definition view :: "Axes \<Rightarrow> view" where
  "view ax = ((xscale ax, yscale ax), (xlim ax, ylim ax))"

text \<open>
  \<^verbatim>\<open>astype(np.int)\<close> on an array of floats gives 64-bit integers: the fractional
  part is dropped (towards zero), and a value outside the 64-bit range becomes the
  least 64-bit integer. Arithmetic on such an array wraps around.
\<close>

definition int64 :: "int \<Rightarrow> int" where
  "int64 i = (i + 2 ^ 63) mod 2 ^ 64 - 2 ^ 63"

definition astype_int :: "real \<Rightarrow> int" where
  "astype_int x =
     (let t = (if x < 0 then \<lceil>x\<rceil> else \<lfloor>x\<rfloor>)
      in if - (2 ^ 63) \<le> t \<and> t < 2 ^ 63 then t else - (2 ^ 63))"

text \<open>\<^verbatim>\<open>np.arange(a, b)\<close> on integers: \<open>a, a + 1, ..., b - 1\<close>, empty when \<open>b \<le> a\<close>.\<close>

definition arange :: "int \<Rightarrow> int \<Rightarrow> int list" where
  "arange a b = [a..b - 1]"

text \<open>
  \<^verbatim>\<open>xs[i]\<close> with an integer: a negative index counts from the end, and an index
  out of range raises \<^verbatim>\<open>IndexError\<close>.
\<close>

definition item :: "'a list \<Rightarrow> int \<Rightarrow> error + 'a" where
  "item xs i =
     (if 0 \<le> i \<and> i < int (length xs) then Inr (xs ! nat i)
      else if i < 0 \<and> 0 \<le> i + int (length xs) then Inr (xs ! nat (i + int (length xs)))
      else Inl IndexError)"

text \<open>
  \<^verbatim>\<open>xs[a:b]\<close>: each bound is counted from the end when negative and then clipped
  to \<open>0..len\<close>; the slice never raises.
\<close>

definition slice_bound :: "int \<Rightarrow> nat \<Rightarrow> nat" where
  "slice_bound i n = (if i < 0 then nat (i + int n) else min (nat i) n)"

definition slice_length :: "int \<Rightarrow> int \<Rightarrow> nat \<Rightarrow> nat" where
  "slice_length a b n = slice_bound b n - slice_bound a n"

definition getslice :: "int \<Rightarrow> int \<Rightarrow> 'a list \<Rightarrow> 'a list" where
  "getslice a b xs =
     (let lo = slice_bound a (length xs); hi = slice_bound b (length xs)
      in take (hi - lo) (drop lo xs))"

text \<open>\<^verbatim>\<open>reshape\<close>: the flat buffer cut into \<open>k\<close> consecutive pieces of \<open>n\<close> elements.\<close>

primrec split_rows :: "nat \<Rightarrow> nat \<Rightarrow> 'a list \<Rightarrow> 'a list list" where
  "split_rows 0 n xs = []"
| "split_rows (Suc k) n xs = take n xs # split_rows k n (drop n xs)"

definition reshape3 :: "nat \<Rightarrow> nat \<Rightarrow> nat \<Rightarrow> 'a list \<Rightarrow> error + 'a list list list" where
  "reshape3 h w c xs =
     (if length xs \<noteq> h * w * c then Inl ValueError
      else Inr (map (split_rows w c) (split_rows h (w * c) xs)))"

text \<open>
  \<^verbatim>\<open>a[r0:r1, c0:c1]\<close> on an array: rows and columns are sliced, and the shape of
  the result comes from the shape of the array. \<^verbatim>\<open>a[:, :, 0]\<close> keeps the first
  byte of every cell.
\<close>

definition window :: "'a ndarray \<Rightarrow> int \<Rightarrow> int \<Rightarrow> int \<Rightarrow> int \<Rightarrow> 'a ndarray" where
  "window a r0 r1 c0 c1 =
     \<lparr>nrows = slice_length r0 r1 (nrows a), ncols = slice_length c0 c1 (ncols a),
      cells = map (getslice c0 c1) (getslice r0 r1 (cells a))\<rparr>"

definition channel0 :: "image \<Rightarrow> byte ndarray" where
  "channel0 a = \<lparr>nrows = nrows a, ncols = ncols a, cells = map (map (\<lambda>p. p ! 0)) (cells a)\<rparr>"

text \<open>\<^verbatim>\<open>list.remove(x)\<close>: drops the first occurrence, \<^verbatim>\<open>ValueError\<close> when there is none.\<close>

definition list_remove :: "'a \<Rightarrow> 'a list \<Rightarrow> error + 'a list" where
  "list_remove x xs = (if x \<in> set xs then Inr (remove1 x xs) else Inl ValueError)"

section \<open>RenderCapture\<close>

record RenderCapture =
  mesh :: QuadMesh
  im :: AxesImage

text \<open>
  \<^verbatim>\<open>RenderCapture.extract_image\<close>: the renderer's buffer as an array of
  \<open>height \<times> width \<times> 4\<close> bytes.
\<close>

definition extract_image :: "Renderer \<Rightarrow> error + image" where
  "extract_image renderer =
     (case reshape3 (height renderer) (width renderer) 4 (buffer_rgba renderer) of
        Inl e \<Rightarrow> Inl e
      | Inr c \<Rightarrow> Inr \<lparr>nrows = height renderer, ncols = width renderer, cells = c\<rparr>)"

text \<open>
  The two corners of the view in device coordinates, as 64-bit integers, before and
  after they are moved in by 5 pixels (\<^verbatim>\<open>corners[0] += 5; corners[1] -= 5\<close>).
\<close>

definition device_corners :: "Axes \<Rightarrow> (int \<times> int) \<times> (int \<times> int)" where
  "device_corners ax =
     (let pts = [(fst (xlim ax), fst (ylim ax)), (snd (xlim ax), snd (ylim ax))];
          corners = map (\<lambda>p. (astype_int (fst p), astype_int (snd p)))
                      (map (transData ax (view ax)) pts)
      in (corners ! 0, corners ! 1))"

definition inset_corners :: "Axes \<Rightarrow> (int \<times> int) \<times> (int \<times> int)" where
  "inset_corners ax =
     (case device_corners ax of
        ((x0, y0), (x1, y1)) \<Rightarrow>
          ((int64 (x0 + 5), int64 (y0 + 5)), (int64 (x1 - 5), int64 (y1 - 5))))"

text \<open>\<^verbatim>\<open>RenderCapture._get_corners\<close>: the arrays \<open>px\<close>, \<open>py\<close>, \<open>dx\<close>, \<open>dy\<close>.\<close>

definition get_corners :: "Axes \<Rightarrow> int list \<times> int list \<times> real list \<times> real list" where
  "get_corners ax =
     (case inset_corners ax of
        ((cx0, cy0), (cx1, cy1)) \<Rightarrow>
          (let px = arange cx0 cx1;
               py = arange cy0 cy1;
               tr = transData_inverted ax (view ax);
               dx = map fst (map tr (map (\<lambda>p. (real_of_int p, real_of_int p)) px));
               dy = map snd (map tr (map (\<lambda>p. (real_of_int p, real_of_int p)) py))
           in (px, py, dx, dy)))"

text \<open>
  \<^verbatim>\<open>im[py[0] : py[-1] + 1, px[0] : px[-1] + 1, :]\<close>: the four indexings are evaluated
  from left to right, and each raises on an empty array.
\<close>

definition crop :: "image \<Rightarrow> int list \<Rightarrow> int list \<Rightarrow> error + image" where
  "crop img py px =
     (case item py 0 of Inl e \<Rightarrow> Inl e | Inr py0 \<Rightarrow>
     (case item py (- 1) of Inl e \<Rightarrow> Inl e | Inr py1 \<Rightarrow>
     (case item px 0 of Inl e \<Rightarrow> Inl e | Inr px0 \<Rightarrow>
     (case item px (- 1) of Inl e \<Rightarrow> Inl e | Inr px1 \<Rightarrow>
        Inr (window img py0 (py1 + 1) px0 (px1 + 1))))))"

text \<open>
  \<^verbatim>\<open>axes.pcolormesh(X, Y, C, cmap='gray')\<close> is matplotlib's. It raises
  \<^verbatim>\<open>TypeError\<close> unless \<open>C\<close> has as many columns as \<open>X\<close> has entries, or one fewer,
  and as many rows as \<open>Y\<close> has entries, or one fewer. Otherwise it makes a new mesh
  artist, appends it to \<^verbatim>\<open>axes.collections\<close> and calls \<^verbatim>\<open>autoscale_view\<close>, which
  moves the limits of an axis that is autoscaled. The new object's identity is the
  next one the allocator hands out.
\<close>

definition shape_fits :: "nat \<Rightarrow> nat \<Rightarrow> 'a ndarray \<Rightarrow> bool" where
  "shape_fits Nx Ny C =
     ((ncols C = Nx \<or> ncols C + 1 = Nx) \<and> (nrows C = Ny \<or> nrows C + 1 = Ny))"

definition pcolormesh ::
  "Axes \<Rightarrow> real list \<Rightarrow> real list \<Rightarrow> byte ndarray \<Rightarrow> (error + QuadMesh) \<times> Axes" where
  "pcolormesh ax X Y C =
     (if \<not> shape_fits (length X) (length Y) C then (Inl TypeError, ax)
      else
        (let m = \<lparr>mesh_id = next_id ax, mesh_X = X, mesh_Y = Y, mesh_C = C, cmap = ''gray''\<rparr>
         in (Inr m,
             ax\<lparr>collections := collections ax @ [mesh_id m], next_id := Suc (next_id ax),
                xlim := (if autoscalex_on ax then fst (autoscale_limits ax X Y) else xlim ax),
                ylim := (if autoscaley_on ax then snd (autoscale_limits ax X Y) else ylim ax)\<rparr>)))"

text \<open>The tuple \<^verbatim>\<open>(dx[0], dx[-1], dy[0], dy[-1])\<close> handed to \<^verbatim>\<open>set_extent\<close>.\<close>

definition extent_of :: "real list \<Rightarrow> real list \<Rightarrow> error + (real \<times> real \<times> real \<times> real)" where
  "extent_of dx dy =
     (case item dx 0 of Inl e \<Rightarrow> Inl e | Inr a \<Rightarrow>
     (case item dx (- 1) of Inl e \<Rightarrow> Inl e | Inr b \<Rightarrow>
     (case item dy 0 of Inl e \<Rightarrow> Inl e | Inr c \<Rightarrow>
     (case item dy (- 1) of Inl e \<Rightarrow> Inl e | Inr d \<Rightarrow> Inr (a, b, c, d)))))"

text \<open>
  \<^verbatim>\<open>AxesImage.set_extent\<close> is matplotlib's: besides storing the extent in the
  image, it sets the limits of an axis that is autoscaled to the extent.
\<close>

definition set_extent :: "Axes \<Rightarrow> real \<times> real \<times> real \<times> real \<Rightarrow> Axes" where
  "set_extent ax ext =
     (case ext of
        (xmin, xmax, ymin, ymax) \<Rightarrow>
          ax\<lparr>xlim := (if autoscalex_on ax then (xmin, xmax) else xlim ax),
             ylim := (if autoscaley_on ax then (ymin, ymax) else ylim ax)\<rparr>)"

text \<open>
  \<^verbatim>\<open>RenderCapture.__init__\<close>. The constructor mutates the axes (through
  \<^verbatim>\<open>pcolormesh\<close>, \<^verbatim>\<open>collections.remove\<close> and \<^verbatim>\<open>set_extent\<close>), so it returns the
  axes as it leaves them, also when it raises. The attribute \<^verbatim>\<open>self.axes\<close> is a
  reference to the same axes object: \<open>RenderCapture_draw\<close> below takes the axes as
  they are at the time of the call.
\<close>

definition RenderCapture_init :: "Axes \<Rightarrow> Renderer \<Rightarrow> (error + RenderCapture) \<times> Axes" where
  "RenderCapture_init ax renderer =
     (case extract_image renderer of Inl e \<Rightarrow> (Inl e, ax) | Inr img \<Rightarrow>
     (case get_corners ax of (px, py, dx, dy) \<Rightarrow>
     (case crop img py px of Inl e \<Rightarrow> (Inl e, ax) | Inr img' \<Rightarrow>
     (case pcolormesh ax dx (rev dy) (channel0 img') of
        (Inl e, ax1) \<Rightarrow> (Inl e, ax1)
      | (Inr m, ax1) \<Rightarrow>
     (case list_remove (mesh_id m) (collections ax1) of Inl e \<Rightarrow> (Inl e, ax1) | Inr cs \<Rightarrow>
     (case extent_of dx dy of Inl e \<Rightarrow> (Inl e, ax1\<lparr>collections := cs\<rparr>) | Inr ext \<Rightarrow>
        (Inr \<lparr>mesh = m,
              im = \<lparr>origin = ''upper'', interpolation = ''nearest'', data = img', extent = ext\<rparr>\<rparr>,
         set_extent (ax1\<lparr>collections := cs\<rparr>) ext)))))))"

section \<open>What reaches the render target\<close>

text \<open>
  Every call of a draw routine of the plotting library is recorded, in order, in a
  trace. \<open>FullDraw\<close> is a call of the original \<^verbatim>\<open>Axes.draw\<close>.
\<close>

datatype event =
    FullDraw
  | PatchDraw
  | ImageDraw AxesImage
  | MeshDraw QuadMesh
  | XAxisDraw
  | YAxisDraw
  | SpineDraw nat

text \<open>\<^verbatim>\<open>RenderCapture.draw\<close>: which of the two artists is drawn.\<close>

definition RenderCapture_draw :: "Axes \<Rightarrow> RenderCapture \<Rightarrow> event" where
  "RenderCapture_draw ax rc =
     (if xscale ax = ''linear'' \<and> yscale ax = ''linear'' then ImageDraw (im rc)
      else MeshDraw (mesh rc))"

section \<open>AxesCache\<close>

datatype handler = CallReset

record AxesCache =
  axes :: Axes
  overview_img :: "RenderCapture option"
  canvas_callbacks :: "(string \<times> handler) list"
  trace :: "event list"

text \<open>\<^verbatim>\<open>AxesCache.reset\<close>.\<close>

definition reset :: "AxesCache \<Rightarrow> AxesCache" where
  "reset s = s\<lparr>overview_img := None\<rparr>"

text \<open>
  \<^verbatim>\<open>AxesCache.refresh_on_mouseup\<close> registers \<^verbatim>\<open>lambda e: self.reset()\<close> for
  \<^verbatim>\<open>'button_release_event'\<close>; the canvas then calls, for an event, every handler
  registered under its name, in the order of registration.
\<close>

definition refresh_on_mouseup :: "AxesCache \<Rightarrow> AxesCache" where
  "refresh_on_mouseup s =
     s\<lparr>canvas_callbacks := canvas_callbacks s @ [(''button_release_event'', CallReset)]\<rparr>"

fun call_handler :: "handler \<Rightarrow> AxesCache \<Rightarrow> AxesCache" where
  "call_handler CallReset s = reset s"

fun process_callbacks :: "(string \<times> handler) list \<Rightarrow> string \<Rightarrow> AxesCache \<Rightarrow> AxesCache" where
  "process_callbacks [] name s = s"
| "process_callbacks ((n, h) # cbs) name s =
     process_callbacks cbs name (if n = name then call_handler h s else s)"

definition process_event :: "string \<Rightarrow> AxesCache \<Rightarrow> AxesCache" where
  "process_event name s = process_callbacks (canvas_callbacks s) name s"

text \<open>\<^verbatim>\<open>AxesCache.__init__\<close>.\<close>

definition AxesCache_init :: "Axes \<Rightarrow> AxesCache" where
  "AxesCache_init ax =
     refresh_on_mouseup
       \<lparr>axes = ax\<lparr>draw := AxesCache_draw_method\<rparr>, overview_img = None,
        canvas_callbacks = [], trace = []\<rparr>"

text \<open>
  \<^verbatim>\<open>AxesCache.draw\<close>. The original \<^verbatim>\<open>Axes.draw\<close> is the parameter \<open>Axes_draw\<close>: it
  raises, or it returns with the renderer's buffer filled. The result is the outcome
  of the call (an exception or a normal return) and the state it leaves.
\<close>

definition AxesCache_draw ::
  "(Axes \<Rightarrow> Renderer \<Rightarrow> error + Renderer) \<Rightarrow> AxesCache \<Rightarrow> Renderer \<Rightarrow> (error + unit) \<times> AxesCache" where
  "AxesCache_draw Axes_draw s renderer =
     (case overview_img s of
        None \<Rightarrow>
          (let s1 = s\<lparr>trace := trace s @ [FullDraw]\<rparr> in
           case Axes_draw (axes s) renderer of
             Inl e \<Rightarrow> (Inl e, s1)
           | Inr renderer' \<Rightarrow>
               (case RenderCapture_init (axes s1) renderer' of
                  (Inl e, ax') \<Rightarrow> (Inl e, s1\<lparr>axes := ax'\<rparr>)
                | (Inr rc, ax') \<Rightarrow> (Inr (), s1\<lparr>axes := ax', overview_img := Some rc\<rparr>)))
      | Some rc \<Rightarrow>
          (Inr (),
           s\<lparr>trace := trace s
                @ [PatchDraw, RenderCapture_draw (axes s) rc, XAxisDraw, YAxisDraw]
                @ map SpineDraw (map snd (spines (axes s)))\<rparr>))"

text \<open>The number of calls of the original draw routine recorded so far.\<close>

definition full_draws :: "AxesCache \<Rightarrow> nat" where
  "full_draws s = length (filter (\<lambda>e. e = FullDraw) (trace s))"

text \<open>
  A sequence of draw requests. Before each one the host may have changed the scale
  of either axis (\<^verbatim>\<open>set_xscale\<close>, \<^verbatim>\<open>set_yscale\<close>); an error raised by a draw is
  dropped and the next request follows.
\<close>

fun draw_all ::
  "(Axes \<Rightarrow> Renderer \<Rightarrow> error + Renderer) \<Rightarrow> (string \<times> string \<times> Renderer) list \<Rightarrow>
   AxesCache \<Rightarrow> AxesCache" where
  "draw_all Axes_draw [] s = s"
| "draw_all Axes_draw ((xs, ys, r) # reqs) s =
     draw_all Axes_draw reqs
       (snd (AxesCache_draw Axes_draw (s\<lparr>axes := (axes s)\<lparr>xscale := xs, yscale := ys\<rparr>\<rparr>) r))"

section \<open>Notions the properties are stated with\<close>

text \<open>
  The width and height of the view's rectangle in device pixels (between the integer
  corners, before the inset), and the renderer's buffer holding as many bytes as its
  dimensions say.
\<close>

definition device_width :: "Axes \<Rightarrow> int" where
  "device_width ax = fst (snd (device_corners ax)) - fst (fst (device_corners ax))"

definition device_height :: "Axes \<Rightarrow> int" where
  "device_height ax = snd (snd (device_corners ax)) - snd (fst (device_corners ax))"

definition buffer_ok :: "Renderer \<Rightarrow> bool" where
  "buffer_ok r = (length (buffer_rgba r) = height r * width r * 4)"

text \<open>The inset rectangle is degenerate when \<open>px\<close> or \<open>py\<close> has no element.\<close>

definition degenerate :: "Axes \<Rightarrow> bool" where
  "degenerate ax = (case get_corners ax of (px, py, dx, dy) \<Rightarrow> px = [] \<or> py = [])"

text \<open>The inset rectangle lies on the pixels the renderer's buffer holds.\<close>

definition inset_on_buffer :: "Axes \<Rightarrow> Renderer \<Rightarrow> bool" where
  "inset_on_buffer ax r =
     (case inset_corners ax of
        ((cx0, cy0), (cx1, cy1)) \<Rightarrow>
          0 \<le> cx0 \<and> cx1 \<le> int (width r) \<and> 0 \<le> cy0 \<and> cy1 \<le> int (height r))"

text \<open>Every artist registered with the axes was allocated before the next identity.\<close>

definition ids_allocated :: "Axes \<Rightarrow> bool" where
  "ids_allocated ax = list_all (\<lambda>i. i < next_id ax) (collections ax)"

section \<open>Concrete inputs\<close>

text \<open>
  Axes with linear scales whose view, of data bounds \<open>[0, 6] \<times> [0, 13/2]\<close>, fills a
  box of \<open>w\<close> by \<open>h\<close> device pixels from the origin, as matplotlib's transform does:
  the lower bounds go to the origin, the upper bounds to \<open>(w, h)\<close>. One artist is
  registered and autoscaling is off.
\<close>

definition box_axes :: "real \<Rightarrow> real \<Rightarrow> Axes" where
  "box_axes w h =
     \<lparr>xlim = (0, 6), ylim = (0, 13 / 2), xscale = ''linear'', yscale = ''linear'',
      autoscalex_on = False, autoscaley_on = False,
      transData = (\<lambda>(sc, (x0, x1), (y0, y1)) (x, y).
                     (w * (x - x0) / (x1 - x0), h * (y - y0) / (y1 - y0))),
      transData_inverted = (\<lambda>(sc, (x0, x1), (y0, y1)) (u, v).
                     (x0 + u * (x1 - x0) / w, y0 + v * (y1 - y0) / h)),
      autoscale_limits = (\<lambda>X Y. ((0, 6), (0, 13 / 2))),
      collections = [0],
      spines = [(''left'', 1), (''right'', 2), (''bottom'', 3), (''top'', 4)],
      draw = Axes_draw_method, next_id = 5\<rparr>"

text \<open>
  A view of 12 by 13 device pixels, on a renderer of the same size; a view only 10
  pixels high; and a view 20 pixels wide, beyond the renderer's 12 columns.
\<close>

definition example_axes :: Axes where
  "example_axes = box_axes 12 13"

definition flat_axes :: Axes where
  "flat_axes = box_axes 12 10"

definition wide_axes :: Axes where
  "wide_axes = box_axes 20 13"

definition example_renderer :: Renderer where
  "example_renderer = \<lparr>height = 13, width = 12, buffer_rgba = replicate 624 0\<rparr>"

text \<open>
  The first view again, with an inverted transform that is off by a 1024th of a data
  unit, as a rounded computation is off; and with a transform that is exact but lets
  the device y depend on the data x.
\<close>

definition drift_axes :: Axes where
  "drift_axes =
     example_axes\<lparr>transData_inverted := (\<lambda>v (u, w). (u / 2 - 1 / 1024, w / 2 - 1 / 1024))\<rparr>"

definition shear_axes :: Axes where
  "shear_axes =
     example_axes\<lparr>ylim := (0, 7 / 2),
                   transData := (\<lambda>v (x, y). (2 * x, 2 * y + x)),
                   transData_inverted := (\<lambda>v (u, w). (u / 2, (w - u / 2) / 2))\<rparr>"

text \<open>
  The frame captured from the first view on a buffer of zeros, and a cache state
  holding it, for the properties of a filled slot.
\<close>

definition example_capture :: RenderCapture where
  "example_capture =
     \<lparr>mesh = \<lparr>mesh_id = 5, mesh_X = [5 / 2, 3], mesh_Y = [7 / 2, 3, 5 / 2],
              mesh_C = \<lparr>nrows = 3, ncols = 2, cells = [[0, 0], [0, 0], [0, 0]]\<rparr>,
              cmap = ''gray''\<rparr>,
      im = \<lparr>origin = ''upper'', interpolation = ''nearest'',
            data = \<lparr>nrows = 3, ncols = 2,
                    cells = [[[0, 0, 0, 0], [0, 0, 0, 0]], [[0, 0, 0, 0], [0, 0, 0, 0]],
                             [[0, 0, 0, 0], [0, 0, 0, 0]]]\<rparr>,
            extent = (5 / 2, 3, 5 / 2, 7 / 2)\<rparr>\<rparr>"

definition filled_cache :: AxesCache where
  "filled_cache = (AxesCache_init example_axes)\<lparr>overview_img := Some example_capture\<rparr>"

section \<open>Lists, slices and arrays\<close>

lemma length_split_rows: "length (split_rows k n xs) = k"
  by (induction k arbitrary: xs) simp_all

lemma split_rows_row_length:
  "k * n \<le> length xs \<Longrightarrow> row \<in> set (split_rows k n xs) \<Longrightarrow> length row = n"
proof (induction k arbitrary: xs)
  case 0
  then show ?case by simp
next
  case (Suc k)
  from Suc.prems(1) have n: "n \<le> length xs" and rest: "k * n \<le> length (drop n xs)"
    by simp_all
  from Suc.prems(2) consider "row = take n xs" | "row \<in> set (split_rows k n (drop n xs))"
    by auto
  then show ?case
  proof cases
    case 1
    with n show ?thesis by simp
  next
    case 2
    with Suc.IH [OF rest] show ?thesis .
  qed
qed

lemma split_rows_replicate:
  "k * n \<le> m \<Longrightarrow> split_rows k n (replicate m x) = replicate k (replicate n x)"
proof (induction k arbitrary: m)
  case 0
  then show ?case by simp
next
  case (Suc k)
  then have "n \<le> m" and "k * n \<le> m - n" by simp_all
  with Suc.IH [of "m - n"] show ?case by (simp add: min_def)
qed

lemma slice_bound_le: "slice_bound i n \<le> n"
  unfolding slice_bound_def by (cases "i < 0") auto

lemma length_slice: "length (getslice a b xs) = slice_length a b (length xs)"
  using slice_bound_le [of b "length xs"] by (simp add: getslice_def slice_length_def Let_def)

lemma slice_length_inside:
  "0 \<le> a \<Longrightarrow> a \<le> b \<Longrightarrow> b \<le> int n \<Longrightarrow> slice_length a b n = nat (b - a)"
  unfolding slice_length_def slice_bound_def by auto

lemma set_slice_subset: "set (getslice a b xs) \<subseteq> set xs"
  unfolding getslice_def Let_def
  by (meson set_take_subset set_drop_subset subset_trans)

lemma slice_replicate:
  "getslice a b (replicate n x) = replicate (slice_length a b n) x"
  using slice_bound_le [of b n] by (simp add: getslice_def slice_length_def Let_def min_def)

lemma item_Nil: "item [] i = Inl IndexError"
  by (simp add: item_def)

lemma item_error: "item xs i = Inl e \<Longrightarrow> e = IndexError"
  by (auto simp: item_def split: if_splits)

lemma item_map: "item (map f xs) i = map_sum id f (item xs i)"
  unfolding item_def by auto

lemma length_arange: "length (arange a b) = nat (b - a)"
  by (simp add: arange_def)

lemma arange_empty: "(arange a b = []) = (b \<le> a)"
  unfolding arange_def by auto

lemma item_arange_first: "a < b \<Longrightarrow> item (arange a b) 0 = Inr a"
  by (simp add: item_def arange_def)

lemma item_arange_last: "a < b \<Longrightarrow> item (arange a b) (- 1) = Inr (b - 1)"
  by (simp add: item_def arange_def)

lemma hd_upto_le: "i \<le> j \<Longrightarrow> hd [i..j] = i"
  by (simp add: upto_rec1)

lemma last_upto_le: "i \<le> j \<Longrightarrow> last [i..j] = j"
  by (simp add: upto_rec2)

lemma shape_fits_channel0: "shape_fits Nx Ny (channel0 a) = shape_fits Nx Ny a"
  by (simp add: shape_fits_def channel0_def)

lemma shape_fits_exact: "ncols a = Nx \<Longrightarrow> nrows a = Ny \<Longrightarrow> shape_fits Nx Ny a"
  by (simp add: shape_fits_def)

section \<open>64-bit integers\<close>

lemma int64_id: "- (2 ^ 63) \<le> i \<Longrightarrow> i < 2 ^ 63 \<Longrightarrow> int64 i = i"
  by (simp add: int64_def)

lemma astype_int_range: "- (2 ^ 63) \<le> astype_int x \<and> astype_int x < 2 ^ 63"
  by (simp add: astype_int_def Let_def)

lemma astype_int_of_int:
  "- (2 ^ 63) \<le> i \<Longrightarrow> i < 2 ^ 63 \<Longrightarrow> astype_int (real_of_int i) = i"
  by (simp add: astype_int_def Let_def)

lemma corners_split:
  obtains x0 y0 x1 y1 where "device_corners ax = ((x0, y0), (x1, y1))"
    "inset_corners ax = ((int64 (x0 + 5), int64 (y0 + 5)), (int64 (x1 - 5), int64 (y1 - 5)))"
    "device_width ax = x1 - x0" "device_height ax = y1 - y0"
    "- (2 ^ 63) \<le> x0" "x0 < 2 ^ 63" "- (2 ^ 63) \<le> y0" "y0 < 2 ^ 63"
    "- (2 ^ 63) \<le> x1" "x1 < 2 ^ 63" "- (2 ^ 63) \<le> y1" "y1 < 2 ^ 63"
proof -
  obtain x0 y0 x1 y1 where d: "device_corners ax = ((x0, y0), (x1, y1))"
    by (metis surj_pair)
  from d have r: "- (2 ^ 63) \<le> x0" "x0 < 2 ^ 63" "- (2 ^ 63) \<le> y0" "y0 < 2 ^ 63"
    "- (2 ^ 63) \<le> x1" "x1 < 2 ^ 63" "- (2 ^ 63) \<le> y1" "y1 < 2 ^ 63"
    using astype_int_range by (auto simp: device_corners_def Let_def)
  show ?thesis
    by (rule that [OF d _ _ _ r])
      (simp_all add: inset_corners_def device_width_def device_height_def d)
qed

lemma inset_no_wrap:
  assumes "device_corners ax = ((x0, y0), (x1, y1))"
    and "10 < device_width ax" and "10 < device_height ax"
  shows "inset_corners ax = ((x0 + 5, y0 + 5), (x1 - 5, y1 - 5))"
proof (rule corners_split [of ax])
  fix a b c d
  assume h: "device_corners ax = ((a, b), (c, d))"
    "inset_corners ax = ((int64 (a + 5), int64 (b + 5)), (int64 (c - 5), int64 (d - 5)))"
    "device_width ax = c - a" "device_height ax = d - b"
    "- (2 ^ 63) \<le> a" "a < 2 ^ 63" "- (2 ^ 63) \<le> b" "b < 2 ^ 63"
    "- (2 ^ 63) \<le> c" "c < 2 ^ 63" "- (2 ^ 63) \<le> d" "d < 2 ^ 63"
  from h(1) assms(1) have e: "a = x0" "b = y0" "c = x1" "d = y1" by simp_all
  from h assms(2,3) have "int64 (a + 5) = a + 5" "int64 (b + 5) = b + 5"
    "int64 (c - 5) = c - 5" "int64 (d - 5) = d - 5"
    by (simp_all add: int64_id)
  with h(2) e show ?thesis by simp
qed

section \<open>The constructor of a capture\<close>

lemma extract_image_shape:
  assumes "buffer_ok r"
  shows "\<exists>img. extract_image r = Inr img \<and> nrows img = height r \<and> ncols img = width r
           \<and> length (cells img) = height r
           \<and> (\<forall>row \<in> set (cells img). length row = width r \<and> (\<forall>p \<in> set row. length p = 4))"
proof -
  let ?rows = "split_rows (height r) (width r * 4) (buffer_rgba r)"
  let ?c = "map (split_rows (width r) 4) ?rows"
  let ?img = "\<lparr>nrows = height r, ncols = width r, cells = ?c\<rparr>"
  have len: "length (buffer_rgba r) = height r * width r * 4"
    using assms by (simp add: buffer_ok_def)
  have e: "extract_image r = Inr ?img"
    using len by (simp add: extract_image_def reshape3_def)
  have rows: "\<And>row. row \<in> set ?rows \<Longrightarrow> length row = width r * 4"
    using len by (intro split_rows_row_length [of "height r"]) (simp_all add: mult.assoc)
  have "\<forall>row \<in> set ?c. length row = width r \<and> (\<forall>p \<in> set row. length p = 4)"
  proof
    fix row assume "row \<in> set ?c"
    then obtain flat where f: "flat \<in> set ?rows" and row: "row = split_rows (width r) 4 flat"
      by auto
    from rows [OF f] have "width r * 4 \<le> length flat" by simp
    then have "\<forall>p \<in> set row. length p = 4"
      unfolding row using split_rows_row_length [of "width r" 4 flat] by blast
    then show "length row = width r \<and> (\<forall>p \<in> set row. length p = 4)"
      by (simp add: row length_split_rows)
  qed
  with e show ?thesis by (simp add: length_split_rows)
qed

lemma extract_image_bad: "\<not> buffer_ok r \<Longrightarrow> extract_image r = Inl ValueError"
  by (simp add: extract_image_def reshape3_def buffer_ok_def)

lemma get_corners_eq:
  assumes "inset_corners ax = ((cx0, cy0), (cx1, cy1))"
  shows "get_corners ax =
      (arange cx0 cx1, arange cy0 cy1,
       map (\<lambda>p. fst (transData_inverted ax (view ax) (real_of_int p, real_of_int p))) (arange cx0 cx1),
       map (\<lambda>p. snd (transData_inverted ax (view ax) (real_of_int p, real_of_int p))) (arange cy0 cy1))"
  using assms by (simp add: get_corners_def Let_def comp_def)

lemma get_corners_px_py:
  assumes "inset_corners ax = ((cx0, cy0), (cx1, cy1))"
  shows "fst (get_corners ax) = arange cx0 cx1" "fst (snd (get_corners ax)) = arange cy0 cy1"
  by (simp_all add: get_corners_eq [OF assms])

lemma degenerate_corners:
  "inset_corners ax = ((cx0, cy0), (cx1, cy1)) \<Longrightarrow> degenerate ax = (cx1 \<le> cx0 \<or> cy1 \<le> cy0)"
  by (simp add: degenerate_def get_corners_eq arange_empty)

lemma crop_window:
  "cx0 < cx1 \<Longrightarrow> cy0 < cy1 \<Longrightarrow>
   crop img (arange cy0 cy1) (arange cx0 cx1) = Inr (window img cy0 cy1 cx0 cx1)"
  by (simp add: crop_def item_arange_first item_arange_last)

lemma crop_degenerate: "px = [] \<or> py = [] \<Longrightarrow> crop img py px = Inl IndexError"
  by (auto simp: crop_def item_Nil split: sum.splits dest: item_error)

lemma extent_of_arange:
  "cx0 < cx1 \<Longrightarrow> cy0 < cy1 \<Longrightarrow>
   extent_of (map f (arange cx0 cx1)) (map g (arange cy0 cy1))
     = Inr (f cx0, f (cx1 - 1), g cy0, g (cy1 - 1))"
  by (simp add: extent_of_def item_map item_arange_first item_arange_last)

lemma remove1_fresh: "x \<notin> set xs \<Longrightarrow> remove1 x (xs @ [x]) = xs"
  by (simp add: remove1_append)

lemma init_bad_buffer:
  "extract_image r = Inl e \<Longrightarrow> RenderCapture_init ax r = (Inl e, ax)"
  by (simp add: RenderCapture_init_def)

lemma init_degenerate:
  assumes "extract_image r = Inr img" and "degenerate ax"
  shows "RenderCapture_init ax r = (Inl IndexError, ax)"
proof -
  obtain px py dx dy where g: "get_corners ax = (px, py, dx, dy)"
    by (cases "get_corners ax") auto
  with assms(2) have "px = [] \<or> py = []" by (simp add: degenerate_def)
  then have "crop img py px = Inl IndexError" by (rule crop_degenerate)
  then show ?thesis by (simp add: RenderCapture_init_def assms(1) g)
qed

lemma init_mismatch:
  assumes "extract_image r = Inr img"
    and "inset_corners ax = ((cx0, cy0), (cx1, cy1))"
    and "cx0 < cx1" and "cy0 < cy1"
    and "\<not> shape_fits (nat (cx1 - cx0)) (nat (cy1 - cy0)) (window img cy0 cy1 cx0 cx1)"
  shows "RenderCapture_init ax r = (Inl TypeError, ax)"
  using assms(5)
  by (simp add: RenderCapture_init_def assms(1) get_corners_eq [OF assms(2)]
      crop_window [OF assms(3,4)] pcolormesh_def length_arange shape_fits_channel0)

lemma init_nondegenerate:
  assumes "extract_image r = Inr img"
    and "inset_corners ax = ((cx0, cy0), (cx1, cy1))"
    and "cx0 < cx1" and "cy0 < cy1"
    and "shape_fits (nat (cx1 - cx0)) (nat (cy1 - cy0)) (window img cy0 cy1 cx0 cx1)"
  shows "fst (RenderCapture_init ax r) =
    Inr \<lparr>mesh = \<lparr>mesh_id = next_id ax,
                  mesh_X = map (\<lambda>p. fst (transData_inverted ax (view ax) (real_of_int p, real_of_int p)))
                             (arange cx0 cx1),
                  mesh_Y = rev (map (\<lambda>p. snd (transData_inverted ax (view ax) (real_of_int p, real_of_int p)))
                             (arange cy0 cy1)),
                  mesh_C = channel0 (window img cy0 cy1 cx0 cx1),
                  cmap = ''gray''\<rparr>,
          im = \<lparr>origin = ''upper'', interpolation = ''nearest'',
                data = window img cy0 cy1 cx0 cx1,
                extent = (fst (transData_inverted ax (view ax) (real_of_int cx0, real_of_int cx0)),
                          fst (transData_inverted ax (view ax) (real_of_int (cx1 - 1), real_of_int (cx1 - 1))),
                          snd (transData_inverted ax (view ax) (real_of_int cy0, real_of_int cy0)),
                          snd (transData_inverted ax (view ax) (real_of_int (cy1 - 1), real_of_int (cy1 - 1))))\<rparr>\<rparr>"
    and "collections (snd (RenderCapture_init ax r))
           = remove1 (next_id ax) (collections ax @ [next_id ax])"
    and "next_id (snd (RenderCapture_init ax r)) = Suc (next_id ax)"
  using assms(5)
  by (simp_all add: RenderCapture_init_def assms(1) get_corners_eq [OF assms(2)]
      crop_window [OF assms(3,4)] extent_of_arange [OF assms(3,4)] pcolormesh_def length_arange
      shape_fits_channel0 list_remove_def set_extent_def Let_def)

lemma pcolormesh_collections:
  "shape_fits (length X) (length Y) C \<Longrightarrow>
   collections (snd (pcolormesh ax X Y C)) = collections ax @ [next_id ax]"
  by (simp add: pcolormesh_def Let_def)

lemma init_cases:
  obtains (bad) e where "extract_image r = Inl e" "RenderCapture_init ax r = (Inl e, ax)"
  | (deg) img where "extract_image r = Inr img" "degenerate ax"
      "RenderCapture_init ax r = (Inl IndexError, ax)"
  | (mismatch) img where "extract_image r = Inr img" "\<not> degenerate ax"
      "RenderCapture_init ax r = (Inl TypeError, ax)"
  | (ok) img rc where "extract_image r = Inr img" "\<not> degenerate ax"
      "fst (RenderCapture_init ax r) = Inr rc"
      "mesh_id (mesh rc) = next_id ax"
      "collections (snd (RenderCapture_init ax r))
         = remove1 (next_id ax) (collections ax @ [next_id ax])"
      "collections (snd (pcolormesh ax (mesh_X (mesh rc)) (mesh_Y (mesh rc)) (mesh_C (mesh rc))))
         = collections ax @ [next_id ax]"
proof (cases "extract_image r")
  case (Inl e)
  then show ?thesis using bad init_bad_buffer by blast
next
  case (Inr img)
  show ?thesis
  proof (cases "degenerate ax")
    case True
    then show ?thesis using deg Inr init_degenerate by blast
  next
    case False
    obtain cx0 cy0 cx1 cy1 where ic: "inset_corners ax = ((cx0, cy0), (cx1, cy1))"
      by (metis surj_pair)
    with False have lt: "cx0 < cx1" "cy0 < cy1" by (simp_all add: degenerate_corners)
    show ?thesis
    proof (cases "shape_fits (nat (cx1 - cx0)) (nat (cy1 - cy0)) (window img cy0 cy1 cx0 cx1)")
      case f: False
      from init_mismatch [OF Inr ic lt f] show ?thesis
        using mismatch [OF Inr False] by simp
    next
      case t: True
      note n = init_nondegenerate [OF Inr ic lt t]
      have p: "collections (snd (pcolormesh ax
            (map (\<lambda>p. fst (transData_inverted ax (view ax) (real_of_int p, real_of_int p)))
               (arange cx0 cx1))
            (rev (map (\<lambda>p. snd (transData_inverted ax (view ax) (real_of_int p, real_of_int p)))
               (arange cy0 cy1)))
            (channel0 (window img cy0 cy1 cx0 cx1))))
          = collections ax @ [next_id ax]"
        using t by (intro pcolormesh_collections) (simp add: length_arange shape_fits_channel0)
      show ?thesis
        by (rule ok [OF Inr False n(1) _ n(2)]) (simp_all add: p)
    qed
  qed
qed

lemma init_collections:
  assumes "ids_allocated ax"
  shows "collections (snd (RenderCapture_init ax r)) = collections ax"
proof -
  from assms have fresh: "next_id ax \<notin> set (collections ax)"
    by (auto simp: ids_allocated_def list_all_iff)
  show ?thesis
  proof (cases rule: init_cases [of r ax])
    case (bad e)
    then show ?thesis by simp
  next
    case (deg img)
    then show ?thesis by simp
  next
    case (mismatch img)
    then show ?thesis by simp
  next
    case (ok img rc)
    then show ?thesis by (simp add: remove1_fresh [OF fresh])
  qed
qed

lemma window_on_buffer:
  assumes "nrows img = h" and "ncols img = w" and "length (cells img) = h"
    and "\<forall>row \<in> set (cells img). length row = w \<and> (\<forall>p \<in> set row. length p = 4)"
    and "0 \<le> cx0" "cx0 \<le> cx1" "cx1 \<le> int w" and "0 \<le> cy0" "cy0 \<le> cy1" "cy1 \<le> int h"
  shows "nrows (window img cy0 cy1 cx0 cx1) = nat (cy1 - cy0)"
    and "ncols (window img cy0 cy1 cx0 cx1) = nat (cx1 - cx0)"
    and "length (cells (window img cy0 cy1 cx0 cx1)) = nat (cy1 - cy0)"
    and "\<forall>row \<in> set (cells (window img cy0 cy1 cx0 cx1)).
            length row = nat (cx1 - cx0) \<and> (\<forall>p \<in> set row. length p = 4)"
proof -
  show "nrows (window img cy0 cy1 cx0 cx1) = nat (cy1 - cy0)"
    using assms(1,8,9,10) by (simp add: window_def slice_length_inside)
  show "ncols (window img cy0 cy1 cx0 cx1) = nat (cx1 - cx0)"
    using assms(2,5,6,7) by (simp add: window_def slice_length_inside)
  show "length (cells (window img cy0 cy1 cx0 cx1)) = nat (cy1 - cy0)"
    using assms(3,8,9,10) by (simp add: window_def length_slice slice_length_inside)
  have "length (getslice cx0 cx1 row) = nat (cx1 - cx0)
      \<and> (\<forall>p \<in> set (getslice cx0 cx1 row). length p = 4)"
    if "row \<in> set (getslice cy0 cy1 (cells img))" for row
  proof -
    from that set_slice_subset [of cy0 cy1 "cells img"] have "row \<in> set (cells img)" by blast
    with assms(4) have l: "length row = w" and p: "\<forall>p \<in> set row. length p = 4" by simp_all
    from l assms(5,6,7) have "length (getslice cx0 cx1 row) = nat (cx1 - cx0)"
      by (simp add: length_slice slice_length_inside)
    moreover from p set_slice_subset [of cx0 cx1 row]
    have "\<forall>p \<in> set (getslice cx0 cx1 row). length p = 4" by blast
    ultimately show ?thesis by simp
  qed
  then show "\<forall>row \<in> set (cells (window img cy0 cy1 cx0 cx1)).
            length row = nat (cx1 - cx0) \<and> (\<forall>p \<in> set row. length p = 4)"
    by (simp add: window_def)
qed

section \<open>Steps of the cache controller\<close>

lemma process_callbacks_all_reset:
  "process_callbacks cbs name s = (if name \<in> fst ` set cbs then reset s else s)"
proof (induction cbs arbitrary: s)
  case Nil
  then show ?case by simp
next
  case (Cons c cbs)
  obtain n h where c: "c = (n, h)" by (cases c)
  have h: "h = CallReset" by (cases h) simp
  show ?case using Cons.IH by (simp add: c h reset_def)
qed

lemma draw_miss_trace:
  "overview_img s = None \<Longrightarrow> trace (snd (AxesCache_draw D s r)) = trace s @ [FullDraw]"
  by (simp add: AxesCache_draw_def Let_def split: sum.splits prod.splits)

lemma full_draws_append:
  "trace t = trace s @ es \<Longrightarrow>
   full_draws t = full_draws s + length (filter (\<lambda>e. e = FullDraw) es)"
  by (simp add: full_draws_def)

lemma draw_hit:
  assumes "overview_img s = Some rc"
  shows "AxesCache_draw D s r = (Inr (),
           s\<lparr>trace := trace s
                @ [PatchDraw, RenderCapture_draw (axes s) rc, XAxisDraw, YAxisDraw]
                @ map SpineDraw (map snd (spines (axes s)))\<rparr>)"
  using assms by (simp add: AxesCache_draw_def)

lemma RenderCapture_draw_not_full: "RenderCapture_draw ax rc \<noteq> FullDraw"
  by (simp add: RenderCapture_draw_def)

lemma draw_hit_full_draws:
  assumes "overview_img s = Some rc"
  shows "full_draws (snd (AxesCache_draw D s r)) = full_draws s"
  by (simp add: draw_hit [OF assms] full_draws_def RenderCapture_draw_not_full comp_def)


lemma draw_hit_state:
  assumes "overview_img s = Some rc"
  shows "overview_img (snd (AxesCache_draw D s r)) = Some rc"
    and "axes (snd (AxesCache_draw D s r)) = axes s"
    and "canvas_callbacks (snd (AxesCache_draw D s r)) = canvas_callbacks s"
  by (simp_all add: draw_hit [OF assms] assms)

lemma draw_all_filled_axes:
  assumes "overview_img s = Some rc"
  shows "overview_img (draw_all D reqs s) = Some rc
       \<and> full_draws (draw_all D reqs s) = full_draws s
       \<and> (\<exists>xs ys. axes (draw_all D reqs s) = (axes s)\<lparr>xscale := xs, yscale := ys\<rparr>)"
  using assms
proof (induction reqs arbitrary: s)
  case Nil
  have "axes (draw_all D [] s) = (axes s)\<lparr>xscale := xscale (axes s), yscale := yscale (axes s)\<rparr>"
    by simp
  then have "\<exists>xs ys. axes (draw_all D [] s) = (axes s)\<lparr>xscale := xs, yscale := ys\<rparr>"
    by (intro exI)
  with Nil show ?case by simp
next
  case (Cons q reqs)
  obtain xs ys r where q: "q = (xs, ys, r)" by (cases q)
  let ?s0 = "s\<lparr>axes := (axes s)\<lparr>xscale := xs, yscale := ys\<rparr>\<rparr>"
  let ?s1 = "snd (AxesCache_draw D ?s0 r)"
  have o0: "overview_img ?s0 = Some rc" using Cons.prems by simp
  have o1: "overview_img ?s1 = Some rc" by (rule draw_hit_state(1) [OF o0])
  have f1: "full_draws ?s1 = full_draws s"
    using draw_hit_full_draws [OF o0, of D r] by (simp add: full_draws_def)
  have a1: "axes ?s1 = (axes s)\<lparr>xscale := xs, yscale := ys\<rparr>"
    using draw_hit_state(2) [OF o0, of D r] by simp
  from Cons.IH [OF o1] obtain xs' ys' where
    "overview_img (draw_all D reqs ?s1) = Some rc"
    "full_draws (draw_all D reqs ?s1) = full_draws ?s1"
    "axes (draw_all D reqs ?s1) = (axes ?s1)\<lparr>xscale := xs', yscale := ys'\<rparr>"
    by blast
  then have "overview_img (draw_all D (q # reqs) s) = Some rc"
    and "full_draws (draw_all D (q # reqs) s) = full_draws s"
    and "axes (draw_all D (q # reqs) s) = (axes s)\<lparr>xscale := xs', yscale := ys'\<rparr>"
    by (simp_all add: q f1 a1)
  then show ?case by blast
qed

lemma draw_all_filled:
  assumes "overview_img s = Some rc"
  shows "overview_img (draw_all D reqs s) = Some rc
       \<and> full_draws (draw_all D reqs s) = full_draws s
       \<and> (axes (draw_all D reqs s))\<lparr>xscale := xscale (axes s), yscale := yscale (axes s)\<rparr> = axes s"
proof -
  from draw_all_filled_axes [OF assms, of D reqs] obtain xs ys where
    "overview_img (draw_all D reqs s) = Some rc"
    "full_draws (draw_all D reqs s) = full_draws s"
    "axes (draw_all D reqs s) = (axes s)\<lparr>xscale := xs, yscale := ys\<rparr>"
    by blast
  then show ?thesis by simp
qed

section \<open>The concrete inputs, evaluated\<close>

lemma box_corners:
  "0 \<le> w \<Longrightarrow> w < 2 ^ 63 \<Longrightarrow> 0 \<le> h \<Longrightarrow> h < 2 ^ 63 \<Longrightarrow>
   device_corners (box_axes (real_of_int w) (real_of_int h)) = ((0, 0), (w, h))"
  by (simp add: device_corners_def box_axes_def view_def astype_int_def Let_def)

lemma example_corners:
  "device_corners example_axes = ((0, 0), (12, 13))"
  "device_corners flat_axes = ((0, 0), (12, 10))"
  "device_corners wide_axes = ((0, 0), (20, 13))"
  using box_corners [of 12 13] box_corners [of 12 10] box_corners [of 20 13]
  by (simp_all add: example_axes_def flat_axes_def wide_axes_def)

lemma example_inset:
  "inset_corners example_axes = ((5, 5), (7, 8))"
  "inset_corners flat_axes = ((5, 5), (7, 5))"
  "inset_corners wide_axes = ((5, 5), (15, 8))"
  by (simp_all add: inset_corners_def example_corners int64_def)

lemma example_sizes:
  "device_width example_axes = 12" "device_height example_axes = 13"
  "device_width flat_axes = 12" "device_height flat_axes = 10"
  "device_width wide_axes = 20" "device_height wide_axes = 13"
  by (simp_all add: device_width_def device_height_def example_corners)

lemma example_buffer_ok: "buffer_ok example_renderer"
  by (simp add: buffer_ok_def example_renderer_def)

lemma example_image:
  "extract_image example_renderer
     = Inr \<lparr>nrows = 13, ncols = 12, cells = replicate 13 (replicate 12 (replicate 4 0))\<rparr>"
  by (simp add: extract_image_def reshape3_def example_renderer_def split_rows_replicate)

lemma example_degenerate:
  "\<not> degenerate example_axes" "degenerate flat_axes" "\<not> degenerate wide_axes"
  by (simp_all add: degenerate_corners [OF example_inset(1)] degenerate_corners [OF example_inset(2)]
      degenerate_corners [OF example_inset(3)])

lemma example_on_buffer:
  "inset_on_buffer example_axes example_renderer"
  "\<not> inset_on_buffer wide_axes example_renderer"
  by (simp_all add: inset_on_buffer_def example_inset example_renderer_def)

lemma example_windows:
  "window \<lparr>nrows = 13, ncols = 12, cells = replicate 13 (replicate 12 (replicate 4 (0::byte)))\<rparr>
      5 8 5 7
     = \<lparr>nrows = 3, ncols = 2, cells = replicate 3 (replicate 2 (replicate 4 0))\<rparr>"
  "window \<lparr>nrows = 13, ncols = 12, cells = replicate 13 (replicate 12 (replicate 4 (0::byte)))\<rparr>
      5 8 5 15
     = \<lparr>nrows = 3, ncols = 7, cells = replicate 3 (replicate 7 (replicate 4 0))\<rparr>"
  by (simp_all add: window_def slice_replicate slice_length_def slice_bound_def)

lemma init_cache_fields:
  "overview_img (AxesCache_init ax) = None"
  "trace (AxesCache_init ax) = []"
  "axes (AxesCache_init ax) = ax\<lparr>draw := AxesCache_draw_method\<rparr>"
  "canvas_callbacks (AxesCache_init ax) = [(''button_release_event'', CallReset)]"
  by (simp_all add: AxesCache_init_def refresh_on_mouseup_def)

lemma draw_update:
  "device_corners (ax\<lparr>draw := h\<rparr>) = device_corners ax"
  "inset_corners (ax\<lparr>draw := h\<rparr>) = inset_corners ax"
  "degenerate (ax\<lparr>draw := h\<rparr>) = degenerate ax"
  "inset_on_buffer (ax\<lparr>draw := h\<rparr>) r = inset_on_buffer ax r"
  by (simp_all add: degenerate_def get_corners_def inset_corners_def device_corners_def view_def
      inset_on_buffer_def)

section \<open>Draws on an empty slot\<close>

lemma init_on_buffer:
  assumes "buffer_ok r" and "\<not> degenerate ax" and "inset_on_buffer ax r"
    and "inset_corners ax = ((cx0, cy0), (cx1, cy1))"
  shows "\<exists>rc. fst (RenderCapture_init ax r) = Inr rc
           \<and> nrows (data (im rc)) = nat (cy1 - cy0) \<and> ncols (data (im rc)) = nat (cx1 - cx0)
           \<and> length (cells (data (im rc))) = nat (cy1 - cy0)
           \<and> (\<forall>row \<in> set (cells (data (im rc))).
                 length row = nat (cx1 - cx0) \<and> (\<forall>p \<in> set row. length p = 4))"
proof -
  from extract_image_shape [OF assms(1)] obtain img where img: "extract_image r = Inr img"
    and sh: "nrows img = height r" "ncols img = width r" "length (cells img) = height r"
      "\<forall>row \<in> set (cells img). length row = width r \<and> (\<forall>p \<in> set row. length p = 4)"
    by blast
  from assms(2,4) have lt: "cx0 < cx1" "cy0 < cy1"
    by (simp_all add: degenerate_corners)
  then have le: "cx0 \<le> cx1" "cy0 \<le> cy1" by simp_all
  from assms(3,4) have b: "0 \<le> cx0" "cx1 \<le> int (width r)" "0 \<le> cy0" "cy1 \<le> int (height r)"
    by (simp_all add: inset_on_buffer_def)
  note w = window_on_buffer [OF sh b(1) le(1) b(2) b(3) le(2) b(4)]
  have f: "shape_fits (nat (cx1 - cx0)) (nat (cy1 - cy0)) (window img cy0 cy1 cx0 cx1)"
    by (rule shape_fits_exact) (simp_all add: w)
  show ?thesis
    unfolding init_nondegenerate(1) [OF img assms(4) lt f]
    using w by simp
qed

lemma draw_miss_success:
  assumes "overview_img s = None" and "D (axes s) r = Inr r'"
    and "buffer_ok r'" and "\<not> degenerate (axes s)" and "inset_on_buffer (axes s) r'"
  shows "\<exists>rc ax'. RenderCapture_init (axes s) r' = (Inr rc, ax')
           \<and> AxesCache_draw D s r
               = (Inr (), s\<lparr>axes := ax', overview_img := Some rc, trace := trace s @ [FullDraw]\<rparr>)"
proof -
  obtain cx0 cy0 cx1 cy1 where ic: "inset_corners (axes s) = ((cx0, cy0), (cx1, cy1))"
    by (metis surj_pair)
  from init_on_buffer [OF assms(3,4,5) ic] obtain rc where
    rc: "fst (RenderCapture_init (axes s) r') = Inr rc" by blast
  then obtain ax' where "RenderCapture_init (axes s) r' = (Inr rc, ax')"
    by (cases "RenderCapture_init (axes s) r'") simp
  then show ?thesis using assms(1,2) by (simp add: AxesCache_draw_def)
qed

lemma draw_miss_degenerate:
  assumes "overview_img s = None" and "D (axes s) r = Inr r'" and "degenerate (axes s)"
  shows "AxesCache_draw D s r
           = (Inl (if buffer_ok r' then IndexError else ValueError),
              s\<lparr>trace := trace s @ [FullDraw]\<rparr>)"
proof (cases "buffer_ok r'")
  case True
  from extract_image_shape [OF True] obtain img where img: "extract_image r' = Inr img"
    by blast
  from init_degenerate [OF img assms(3)] True show ?thesis
    using assms(1,2) by (simp add: AxesCache_draw_def)
next
  case False
  from init_bad_buffer [OF extract_image_bad [OF False]] False show ?thesis
    using assms(1,2) by (simp add: AxesCache_draw_def)
qed

lemma draw_miss_full_draws:
  "overview_img s = None \<Longrightarrow> full_draws (snd (AxesCache_draw D s r)) = Suc (full_draws s)"
  using full_draws_append [OF draw_miss_trace, of s D r] by simp

lemma draw_miss_error:
  "overview_img s = None \<Longrightarrow> D (axes s) r = Inl e \<Longrightarrow>
   AxesCache_draw D s r = (Inl e, s\<lparr>trace := trace s @ [FullDraw]\<rparr>)"
  by (simp add: AxesCache_draw_def)

section \<open>Properties of the cache controller\<close>

text \<open>
  Claim C5. \<open>reset\<close> always leaves the slot empty and is idempotent: a second call
  changes nothing, and a call on an empty slot changes nothing. A button-release
  event, once the handler of \<open>refresh_on_mouseup\<close> is registered, does what
  \<open>reset\<close> does. The first draw after a reset is a full draw: it calls the original
  draw routine once; when that routine raises, the draw raises the same error and the
  slot stays empty; when it returns, the outcome of the draw is the outcome of
  constructing a capture from the renderer it returned, and the slot holds the new
  frame when the constructor succeeds.
\<close>

theorem reset_idempotent:
  "overview_img (reset s) = None
   \<and> reset (reset s) = reset s
   \<and> (overview_img s = None \<longrightarrow> reset s = s)
   \<and> ((''button_release_event'', CallReset) \<in> set (canvas_callbacks s) \<longrightarrow>
        process_event ''button_release_event'' s = reset s)
   \<and> trace (snd (AxesCache_draw Axes_draw (reset s) r)) = trace s @ [FullDraw]
   \<and> full_draws (snd (AxesCache_draw Axes_draw (reset s) r)) = Suc (full_draws s)
   \<and> (Axes_draw (axes s) r = Inl e \<longrightarrow>
        AxesCache_draw Axes_draw (reset s) r
          = (Inl e, s\<lparr>overview_img := None, trace := trace s @ [FullDraw]\<rparr>))
   \<and> (Axes_draw (axes s) r = Inr r' \<longrightarrow>
        AxesCache_draw Axes_draw (reset s) r
          = (case RenderCapture_init (axes s) r' of
               (Inl e', ax') \<Rightarrow>
                 (Inl e', s\<lparr>overview_img := None, trace := trace s @ [FullDraw], axes := ax'\<rparr>)
             | (Inr rc, ax') \<Rightarrow>
                 (Inr (), s\<lparr>overview_img := Some rc, trace := trace s @ [FullDraw],
                              axes := ax'\<rparr>)))"
proof -
  have a: "overview_img (reset s) = None" by (simp add: reset_def)
  have a': "reset (reset s) = reset s" by (simp add: reset_def)
  have b: "overview_img s = None \<longrightarrow> reset s = s" by (simp add: reset_def)
  have c: "(''button_release_event'', CallReset) \<in> set (canvas_callbacks s) \<longrightarrow>
        process_event ''button_release_event'' s = reset s"
    by (force simp: process_event_def process_callbacks_all_reset)
  have d: "trace (snd (AxesCache_draw Axes_draw (reset s) r)) = trace s @ [FullDraw]"
    using draw_miss_trace [OF a, of Axes_draw r] by (simp add: reset_def)
  have e: "full_draws (snd (AxesCache_draw Axes_draw (reset s) r)) = Suc (full_draws s)"
    using full_draws_append [OF d] by simp
  have f: "Axes_draw (axes s) r = Inl e \<longrightarrow>
        AxesCache_draw Axes_draw (reset s) r
          = (Inl e, s\<lparr>overview_img := None, trace := trace s @ [FullDraw]\<rparr>)"
    by (simp add: AxesCache_draw_def reset_def)
  have g: "Axes_draw (axes s) r = Inr r' \<longrightarrow>
        AxesCache_draw Axes_draw (reset s) r
          = (case RenderCapture_init (axes s) r' of
               (Inl e', ax') \<Rightarrow>
                 (Inl e', s\<lparr>overview_img := None, trace := trace s @ [FullDraw], axes := ax'\<rparr>)
             | (Inr rc, ax') \<Rightarrow>
                 (Inr (), s\<lparr>overview_img := Some rc, trace := trace s @ [FullDraw],
                              axes := ax'\<rparr>))"
    by (simp add: AxesCache_draw_def reset_def split: prod.splits sum.splits)
  show ?thesis using a a' b c d e f g by blast
qed

theorem reset_idempotent_witness:
  "overview_img filled_cache = Some example_capture
   \<and> (''button_release_event'', CallReset) \<in> set (canvas_callbacks filled_cache)
   \<and> overview_img (process_event ''button_release_event'' filled_cache) = None
   \<and> overview_img (reset (AxesCache_init example_axes)) = None
   \<and> reset (AxesCache_init example_axes) = AxesCache_init example_axes
   \<and> full_draws (snd (AxesCache_draw (\<lambda>ax r. Inr r) (reset filled_cache) example_renderer)) = 1
   \<and> fst (AxesCache_draw (\<lambda>ax r. Inl (HostError ''draw failed'')) (reset filled_cache)
        example_renderer) = Inl (HostError ''draw failed'')
   \<and> overview_img (snd (AxesCache_draw (\<lambda>ax r. Inl (HostError ''draw failed''))
        (reset filled_cache) example_renderer)) = None
   \<and> fst (AxesCache_draw (\<lambda>ax r. Inr r) (reset filled_cache) example_renderer) = Inr ()
   \<and> overview_img (snd (AxesCache_draw (\<lambda>ax r. Inr r) (reset filled_cache) example_renderer))
       = Some (projr (fst (RenderCapture_init (axes filled_cache) example_renderer)))"
proof -
  have m: "(''button_release_event'', CallReset) \<in> set (canvas_callbacks filled_cache)"
    by (simp add: filled_cache_def AxesCache_init_def refresh_on_mouseup_def)
  have n: "overview_img (AxesCache_init example_axes) = None"
    by (simp add: AxesCache_init_def refresh_on_mouseup_def)
  have f: "full_draws filled_cache = 0"
    by (simp add: filled_cache_def AxesCache_init_def refresh_on_mouseup_def full_draws_def)
  have o: "overview_img filled_cache = Some example_capture"
    by (simp add: filled_cache_def)
  have ax: "axes filled_cache = example_axes\<lparr>draw := AxesCache_draw_method\<rparr>"
    by (simp add: filled_cache_def init_cache_fields)
  have "\<exists>rc. fst (RenderCapture_init (axes filled_cache) example_renderer) = Inr rc"
    using init_on_buffer [of example_renderer "axes filled_cache" 5 5 7 8]
    by (auto simp: ax draw_update example_buffer_ok example_degenerate example_on_buffer
        example_inset)
  then obtain rc ax' where
    i: "RenderCapture_init (axes filled_cache) example_renderer = (Inr rc, ax')"
    by (metis prod.collapse)
  note ok = reset_idempotent [of filled_cache "\<lambda>ax r. Inr r" example_renderer
        "HostError ''draw failed''" example_renderer]
  note bad = reset_idempotent [of filled_cache "\<lambda>ax r. Inl (HostError ''draw failed'')"
        example_renderer "HostError ''draw failed''" example_renderer]
  note ini = reset_idempotent [of "AxesCache_init example_axes" "\<lambda>ax r. Inr r"
        example_renderer "HostError ''draw failed''" example_renderer]
  have "process_event ''button_release_event'' filled_cache = reset filled_cache"
    and r: "overview_img (reset filled_cache) = None"
    using ok m by blast+
  then have 1: "overview_img (process_event ''button_release_event'' filled_cache) = None"
    by simp
  have 2: "overview_img (reset (AxesCache_init example_axes)) = None"
    "reset (AxesCache_init example_axes) = AxesCache_init example_axes"
    using ini n by blast+
  have "full_draws (snd (AxesCache_draw (\<lambda>ax r. Inr r) (reset filled_cache)
      example_renderer)) = Suc (full_draws filled_cache)"
    using ok by blast
  then have 3: "full_draws (snd (AxesCache_draw (\<lambda>ax r. Inr r) (reset filled_cache)
      example_renderer)) = 1"
    by (simp add: f)
  have "(\<lambda>ax r. Inl (HostError ''draw failed'')) (axes filled_cache) example_renderer
      = Inl (HostError ''draw failed'')"
    by simp
  with bad have 4: "AxesCache_draw (\<lambda>ax r. Inl (HostError ''draw failed''))
        (reset filled_cache) example_renderer
      = (Inl (HostError ''draw failed''),
         filled_cache\<lparr>overview_img := None, trace := trace filled_cache @ [FullDraw]\<rparr>)"
    by blast
  have "(\<lambda>ax r. Inr r) (axes filled_cache) example_renderer = Inr example_renderer"
    by simp
  with ok have "AxesCache_draw (\<lambda>ax r. Inr r) (reset filled_cache) example_renderer
      = (case RenderCapture_init (axes filled_cache) example_renderer of
               (Inl e', ax') \<Rightarrow>
                 (Inl e', filled_cache\<lparr>overview_img := None,
                            trace := trace filled_cache @ [FullDraw], axes := ax'\<rparr>)
             | (Inr rc, ax') \<Rightarrow>
                 (Inr (), filled_cache\<lparr>overview_img := Some rc,
                            trace := trace filled_cache @ [FullDraw], axes := ax'\<rparr>))"
    by blast
  then have 5: "AxesCache_draw (\<lambda>ax r. Inr r) (reset filled_cache) example_renderer
      = (Inr (), filled_cache\<lparr>overview_img := Some rc, trace := trace filled_cache @ [FullDraw],
                   axes := ax'\<rparr>)"
    by (simp add: i)
  show ?thesis
    using o m 1 2 3 by (simp add: 4 5 i)
qed

text \<open>
  Claim C6. On an empty slot, when the original draw routine raises, \<open>AxesCache_draw\<close>
  raises the same error and the slot is still empty. And whenever the slot holds a
  frame after a draw on an empty slot, the original draw routine had returned
  normally and the frame was constructed from the renderer it returned.
\<close>

theorem full_draw_error_propagates:
  assumes "overview_img s = None"
  shows "(Axes_draw (axes s) r = Inl e \<longrightarrow>
            AxesCache_draw Axes_draw s r = (Inl e, s\<lparr>trace := trace s @ [FullDraw]\<rparr>)
            \<and> overview_img (snd (AxesCache_draw Axes_draw s r)) = None)
       \<and> (overview_img (snd (AxesCache_draw Axes_draw s r)) = Some rc \<longrightarrow>
            (\<exists>r'. Axes_draw (axes s) r = Inr r' \<and> fst (RenderCapture_init (axes s) r') = Inr rc))"
  using assms by (auto simp: AxesCache_draw_def Let_def split: sum.splits prod.splits)

theorem full_draw_error_propagates_witness:
  "overview_img (AxesCache_init example_axes) = None
   \<and> AxesCache_draw (\<lambda>ax r. Inl (HostError ''draw failed'')) (AxesCache_init example_axes)
        example_renderer
      = (Inl (HostError ''draw failed''),
         (AxesCache_init example_axes)\<lparr>trace := [FullDraw]\<rparr>)
   \<and> overview_img (snd (AxesCache_draw (\<lambda>ax r. Inl (HostError ''draw failed''))
        (AxesCache_init example_axes) example_renderer)) = None"
proof -
  have n: "overview_img (AxesCache_init example_axes) = None"
    by (simp add: AxesCache_init_def refresh_on_mouseup_def)
  have t: "trace (AxesCache_init example_axes) = []"
    by (simp add: AxesCache_init_def refresh_on_mouseup_def)
  show ?thesis
    using full_draw_error_propagates [OF n, of "\<lambda>ax r. Inl (HostError ''draw failed'')"
        example_renderer "HostError ''draw failed''"] n t
    by simp
qed

text \<open>
  Claim C7. On a filled slot the draw returns normally, the original draw routine is
  not called, and the trace grows by, in this order: the background patch, the
  cached frame (its image or its mesh), the x axis, the y axis, and every spine in
  the order of \<^verbatim>\<open>spines.values()\<close>.
\<close>

theorem cache_hit_order:
  assumes "overview_img s = Some rc"
  shows "AxesCache_draw Axes_draw s r =
           (Inr (),
            s\<lparr>trace := trace s @ PatchDraw # RenderCapture_draw (axes s) rc # XAxisDraw
                 # YAxisDraw # map (\<lambda>sp. SpineDraw (snd sp)) (spines (axes s))\<rparr>)
       \<and> (RenderCapture_draw (axes s) rc = ImageDraw (im rc)
            \<or> RenderCapture_draw (axes s) rc = MeshDraw (mesh rc))
       \<and> full_draws (snd (AxesCache_draw Axes_draw s r)) = full_draws s"
proof -
  have "RenderCapture_draw (axes s) rc = ImageDraw (im rc)
            \<or> RenderCapture_draw (axes s) rc = MeshDraw (mesh rc)"
    by (simp add: RenderCapture_draw_def)
  then show ?thesis
    using draw_hit [OF assms, of Axes_draw r] draw_hit_full_draws [OF assms, of Axes_draw r]
    by (simp add: comp_def)
qed

theorem cache_hit_order_witness:
  "overview_img filled_cache = Some example_capture
   \<and> trace (snd (AxesCache_draw (\<lambda>ax r. Inr r) filled_cache example_renderer))
      = [PatchDraw, ImageDraw (im example_capture), XAxisDraw, YAxisDraw,
         SpineDraw 1, SpineDraw 2, SpineDraw 3, SpineDraw 4]"
proof -
  have o: "overview_img filled_cache = Some example_capture"
    by (simp add: filled_cache_def)
  show ?thesis
    using cache_hit_order [OF o, of "\<lambda>ax r. Inr r" example_renderer] o
    by (simp add: filled_cache_def AxesCache_init_def refresh_on_mouseup_def example_axes_def box_axes_def
        RenderCapture_draw_def)
qed

text \<open>
  Claim C9. Any sequence of draw requests on a filled slot, on either path and also
  with the scale of the axes changed in between, leaves the slot holding the very
  same frame (the same image, mesh and extent), calls the original draw routine not
  once, and leaves the axes as they were but for the scales the host has set.
\<close>

theorem draws_keep_capture:
  assumes "overview_img s = Some rc"
  shows "overview_img (draw_all Axes_draw reqs s) = Some rc
       \<and> full_draws (draw_all Axes_draw reqs s) = full_draws s
       \<and> (axes (draw_all Axes_draw reqs s))\<lparr>xscale := xscale (axes s), yscale := yscale (axes s)\<rparr>
           = axes s"
  using assms by (rule draw_all_filled)

theorem draws_keep_capture_witness:
  "overview_img filled_cache = Some example_capture
   \<and> overview_img (draw_all (\<lambda>ax r. Inr r)
        [(''linear'', ''linear'', example_renderer), (''log'', ''linear'', example_renderer),
         (''linear'', ''linear'', example_renderer)] filled_cache) = Some example_capture"
proof -
  have o: "overview_img filled_cache = Some example_capture"
    by (simp add: filled_cache_def)
  show ?thesis
    using draws_keep_capture [OF o, of "\<lambda>ax r. Inr r"
        "[(''linear'', ''linear'', example_renderer), (''log'', ''linear'', example_renderer),
          (''linear'', ''linear'', example_renderer)]"] o
    by simp
qed

text \<open>
  Claim C4. \<open>RenderCapture_draw\<close> draws the image exactly when both scales of the axes
  are \<^verbatim>\<open>'linear'\<close> at the time of the call, and the mesh exactly when they are
  not. The choice follows the axes, not the frame: two draws of the same cached frame,
  the first with both scales linear and the second with one of them changed, take
  the image path and then the mesh path, and the slot still holds the same frame.
\<close>

theorem scale_mode_branching:
  "(RenderCapture_draw ax rc = ImageDraw (im rc)) = (xscale ax = ''linear'' \<and> yscale ax = ''linear'')
   \<and> (RenderCapture_draw ax rc = MeshDraw (mesh rc))
       = (\<not> (xscale ax = ''linear'' \<and> yscale ax = ''linear''))
   \<and> (overview_img s = Some rc \<and> \<not> (xs = ''linear'' \<and> ys = ''linear'') \<longrightarrow>
        trace (draw_all Axes_draw [(''linear'', ''linear'', r1), (xs, ys, r2)] s)
          = trace s
            @ PatchDraw # ImageDraw (im rc) # XAxisDraw # YAxisDraw
              # map (\<lambda>sp. SpineDraw (snd sp)) (spines (axes s))
            @ PatchDraw # MeshDraw (mesh rc) # XAxisDraw # YAxisDraw
              # map (\<lambda>sp. SpineDraw (snd sp)) (spines (axes s))
        \<and> overview_img (draw_all Axes_draw [(''linear'', ''linear'', r1), (xs, ys, r2)] s) = Some rc)"
proof -
  have a: "(RenderCapture_draw ax rc = ImageDraw (im rc))
             = (xscale ax = ''linear'' \<and> yscale ax = ''linear'')"
    by (simp add: RenderCapture_draw_def)
  have b: "(RenderCapture_draw ax rc = MeshDraw (mesh rc))
       = (\<not> (xscale ax = ''linear'' \<and> yscale ax = ''linear''))"
    by (simp add: RenderCapture_draw_def)
  have c: "trace (draw_all Axes_draw [(''linear'', ''linear'', r1), (xs, ys, r2)] s)
          = trace s
            @ PatchDraw # ImageDraw (im rc) # XAxisDraw # YAxisDraw
              # map (\<lambda>sp. SpineDraw (snd sp)) (spines (axes s))
            @ PatchDraw # MeshDraw (mesh rc) # XAxisDraw # YAxisDraw
              # map (\<lambda>sp. SpineDraw (snd sp)) (spines (axes s))"
    if o: "overview_img s = Some rc" and n: "\<not> (xs = ''linear'' \<and> ys = ''linear'')"
    using o n by (simp add: AxesCache_draw_def RenderCapture_draw_def comp_def)
  have d: "overview_img (draw_all Axes_draw [(''linear'', ''linear'', r1), (xs, ys, r2)] s) = Some rc"
    if o: "overview_img s = Some rc"
    using draw_all_filled [OF o] by blast
  show ?thesis using a b c d by blast
qed

theorem scale_mode_branching_witness:
  "overview_img filled_cache = Some example_capture
   \<and> RenderCapture_draw example_axes example_capture = ImageDraw (im example_capture)
   \<and> RenderCapture_draw (example_axes\<lparr>yscale := ''log''\<rparr>) example_capture
       = MeshDraw (mesh example_capture)
   \<and> trace (draw_all (\<lambda>ax r. Inr r)
        [(''linear'', ''linear'', example_renderer), (''linear'', ''log'', example_renderer)]
        filled_cache)
      = [PatchDraw, ImageDraw (im example_capture), XAxisDraw, YAxisDraw,
         SpineDraw 1, SpineDraw 2, SpineDraw 3, SpineDraw 4,
         PatchDraw, MeshDraw (mesh example_capture), XAxisDraw, YAxisDraw,
         SpineDraw 1, SpineDraw 2, SpineDraw 3, SpineDraw 4]"
proof -
  have o: "overview_img filled_cache = Some example_capture"
    by (simp add: filled_cache_def)
  have t: "trace filled_cache = []"
    by (simp add: filled_cache_def AxesCache_init_def refresh_on_mouseup_def)
  have sp: "spines (axes filled_cache)
      = [(''left'', 1), (''right'', 2), (''bottom'', 3), (''top'', 4)]"
    by (simp add: filled_cache_def AxesCache_init_def refresh_on_mouseup_def example_axes_def box_axes_def)
  have l: "xscale example_axes = ''linear'' \<and> yscale example_axes = ''linear''"
    by (simp add: example_axes_def box_axes_def)
  show ?thesis
    using scale_mode_branching [of example_axes example_capture filled_cache
        "''linear''" "''log''" "\<lambda>ax r. Inr r" example_renderer example_renderer]
      scale_mode_branching [of "example_axes\<lparr>yscale := ''log''\<rparr>" example_capture filled_cache
        "''linear''" "''log''" "\<lambda>ax r. Inr r" example_renderer example_renderer]
      o t sp l
    by simp
qed

section \<open>Properties of a draw on an empty slot\<close>

text \<open>
  Claim C1, as the code has it. A draw on an empty slot calls the original draw
  routine exactly once. When that routine raises, the draw raises the same error.
  When it returns normally, with a buffer of \<open>height \<times> width \<times> 4\<close> bytes, and
  the inset rectangle is not degenerate and lies on that buffer, the draw returns
  normally and the slot then holds the frame newly constructed from the renderer. A
  draw on a filled slot returns normally, does not call the original draw routine
  and leaves the same frame in the slot.
\<close>

theorem draw_miss_fills_hit_keeps:
  "(overview_img s = None \<longrightarrow>
      full_draws (snd (AxesCache_draw Axes_draw s r)) = Suc (full_draws s)
      \<and> (Axes_draw (axes s) r = Inl e \<longrightarrow>
           AxesCache_draw Axes_draw s r = (Inl e, s\<lparr>trace := trace s @ [FullDraw]\<rparr>))
      \<and> (Axes_draw (axes s) r = Inr r' \<and> buffer_ok r' \<and> \<not> degenerate (axes s)
           \<and> inset_on_buffer (axes s) r' \<longrightarrow>
           (\<exists>rc ax'. RenderCapture_init (axes s) r' = (Inr rc, ax')
              \<and> AxesCache_draw Axes_draw s r
                  = (Inr (), s\<lparr>axes := ax', overview_img := Some rc,
                                trace := trace s @ [FullDraw]\<rparr>))))
   \<and> (overview_img s = Some rc0 \<longrightarrow>
        fst (AxesCache_draw Axes_draw s r) = Inr ()
        \<and> overview_img (snd (AxesCache_draw Axes_draw s r)) = Some rc0
        \<and> full_draws (snd (AxesCache_draw Axes_draw s r)) = full_draws s)"
proof -
  have hit: "fst (AxesCache_draw Axes_draw s r) = Inr ()
        \<and> overview_img (snd (AxesCache_draw Axes_draw s r)) = Some rc0
        \<and> full_draws (snd (AxesCache_draw Axes_draw s r)) = full_draws s"
    if o: "overview_img s = Some rc0"
    using draw_hit [OF o, of Axes_draw r] draw_hit_state(1) [OF o, of Axes_draw r]
      draw_hit_full_draws [OF o, of Axes_draw r]
    by simp
  show ?thesis
    using hit draw_miss_full_draws [of s Axes_draw r] draw_miss_success [of s Axes_draw r r']
      draw_miss_error [of s Axes_draw r e]
    by blast
qed

theorem draw_miss_fills_hit_keeps_witness:
  "overview_img (AxesCache_init example_axes) = None
   \<and> \<not> degenerate (axes (AxesCache_init example_axes))
   \<and> buffer_ok example_renderer
   \<and> inset_on_buffer (axes (AxesCache_init example_axes)) example_renderer
   \<and> fst (AxesCache_draw (\<lambda>ax r. Inr r) (AxesCache_init example_axes) example_renderer) = Inr ()
   \<and> overview_img (snd (AxesCache_draw (\<lambda>ax r. Inr r) (AxesCache_init example_axes)
        example_renderer)) \<noteq> None
   \<and> full_draws (snd (AxesCache_draw (\<lambda>ax r. Inr r) (AxesCache_init example_axes)
        example_renderer)) = 1
   \<and> overview_img filled_cache = Some example_capture
   \<and> overview_img (snd (AxesCache_draw (\<lambda>ax r. Inr r) filled_cache example_renderer))
       = Some example_capture
   \<and> full_draws (snd (AxesCache_draw (\<lambda>ax r. Inr r) filled_cache example_renderer)) = 0"
proof -
  have n: "overview_img (AxesCache_init example_axes) = None"
    by (simp add: init_cache_fields)
  have d: "\<not> degenerate (axes (AxesCache_init example_axes))"
    by (simp add: init_cache_fields draw_update example_degenerate)
  have b: "inset_on_buffer (axes (AxesCache_init example_axes)) example_renderer"
    by (simp add: init_cache_fields draw_update example_on_buffer)
  have f: "full_draws (AxesCache_init example_axes) = 0" "full_draws filled_cache = 0"
    by (simp_all add: full_draws_def init_cache_fields filled_cache_def)
  have o: "overview_img filled_cache = Some example_capture"
    by (simp add: filled_cache_def)
  show ?thesis
    using draw_miss_fills_hit_keeps [of "AxesCache_init example_axes" "\<lambda>ax r. Inr r"
        example_renderer "HostError []" example_renderer]
      draw_miss_fills_hit_keeps [of filled_cache "\<lambda>ax r. Inr r" example_renderer
        "HostError []" example_renderer example_capture]
      n d b f o example_buffer_ok
    by auto
qed

text \<open>
  Claim C1 as it is written fails on a view 10 pixels high: the original draw routine
  runs once and the slot is empty afterwards.
\<close>

theorem draw_miss_fills_counterexample:
  "overview_img (AxesCache_init flat_axes) = None
   \<and> overview_img (snd (AxesCache_draw (\<lambda>ax r. Inr r) (AxesCache_init flat_axes)
        example_renderer)) = None
   \<and> full_draws (snd (AxesCache_draw (\<lambda>ax r. Inr r) (AxesCache_init flat_axes)
        example_renderer)) = 1"
proof -
  have n: "overview_img (AxesCache_init flat_axes) = None"
    by (simp add: init_cache_fields)
  have d: "degenerate (axes (AxesCache_init flat_axes))"
    by (simp add: init_cache_fields draw_update example_degenerate)
  show ?thesis
    using draw_miss_degenerate [of "AxesCache_init flat_axes" "\<lambda>ax r. Inr r" example_renderer
        example_renderer] n d
    by (simp add: init_cache_fields full_draws_def)
qed

text \<open>
  Claim C3, as the code has it. Nothing looks at the view bounds before the capture
  is constructed. On an empty slot and a degenerate inset rectangle the original draw
  routine is called and, when it returns, the constructor raises before any artist is
  made: \<^verbatim>\<open>IndexError\<close> at the first indexing of an empty pixel array when the
  buffer holds \<open>height \<times> width \<times> 4\<close> bytes, \<^verbatim>\<open>ValueError\<close> from the reshape
  when it does not. That error is the outcome of the draw, the axes are untouched and
  the slot stays empty.
\<close>

theorem degenerate_draw_raises:
  assumes "overview_img s = None" and "Axes_draw (axes s) r = Inr r'"
    and "degenerate (axes s)"
  shows "RenderCapture_init (axes s) r'
           = (Inl (if buffer_ok r' then IndexError else ValueError), axes s)
       \<and> AxesCache_draw Axes_draw s r
           = (Inl (if buffer_ok r' then IndexError else ValueError),
              s\<lparr>trace := trace s @ [FullDraw]\<rparr>)"
proof -
  have "RenderCapture_init (axes s) r'
           = (Inl (if buffer_ok r' then IndexError else ValueError), axes s)"
  proof (cases "buffer_ok r'")
    case True
    from extract_image_shape [OF True] obtain img where "extract_image r' = Inr img" by blast
    from init_degenerate [OF this assms(3)] True show ?thesis by simp
  next
    case False
    from init_bad_buffer [OF extract_image_bad [OF False]] False show ?thesis by simp
  qed
  then show ?thesis
    using draw_miss_degenerate [of s Axes_draw r r'] assms by simp
qed

theorem degenerate_draw_raises_witness:
  "overview_img (AxesCache_init flat_axes) = None
   \<and> buffer_ok example_renderer
   \<and> degenerate (axes (AxesCache_init flat_axes))
   \<and> AxesCache_draw (\<lambda>ax r. Inr r) (AxesCache_init flat_axes) example_renderer
       = (Inl IndexError, (AxesCache_init flat_axes)\<lparr>trace := [FullDraw]\<rparr>)
   \<and> \<not> buffer_ok (example_renderer\<lparr>buffer_rgba := []\<rparr>)
   \<and> AxesCache_draw (\<lambda>ax r. Inr (r\<lparr>buffer_rgba := []\<rparr>)) (AxesCache_init flat_axes)
        example_renderer
       = (Inl ValueError, (AxesCache_init flat_axes)\<lparr>trace := [FullDraw]\<rparr>)"
proof -
  have n: "overview_img (AxesCache_init flat_axes) = None"
    by (simp add: init_cache_fields)
  have d: "degenerate (axes (AxesCache_init flat_axes))"
    by (simp add: init_cache_fields draw_update example_degenerate)
  have nb: "\<not> buffer_ok (example_renderer\<lparr>buffer_rgba := []\<rparr>)"
    by (simp add: buffer_ok_def example_renderer_def)
  show ?thesis
    using degenerate_draw_raises [of "AxesCache_init flat_axes" "\<lambda>ax r. Inr r" example_renderer
        example_renderer]
      degenerate_draw_raises [of "AxesCache_init flat_axes" "\<lambda>ax r. Inr (r\<lparr>buffer_rgba := []\<rparr>)"
        example_renderer "example_renderer\<lparr>buffer_rgba := []\<rparr>"]
      n d nb example_buffer_ok
    by (simp add: init_cache_fields)
qed

text \<open>
  Claim C3 as it is written fails on the same view: the constructor is entered and
  raises, and the draw request ends with that error instead of returning.
\<close>

theorem degenerate_guard_counterexample:
  "degenerate flat_axes
   \<and> fst (RenderCapture_init flat_axes example_renderer) = Inl IndexError
   \<and> fst (AxesCache_draw (\<lambda>ax r. Inr r) (AxesCache_init flat_axes) example_renderer)
       = Inl IndexError"
proof -
  have n: "overview_img (AxesCache_init flat_axes) = None"
    by (simp add: init_cache_fields)
  have d: "degenerate (axes (AxesCache_init flat_axes))"
    by (simp add: init_cache_fields draw_update example_degenerate)
  show ?thesis
    using draw_miss_degenerate [of "AxesCache_init flat_axes" "\<lambda>ax r. Inr r" example_renderer
        example_renderer] n d example_buffer_ok
      init_degenerate [OF example_image example_degenerate(2)] example_degenerate(2)
    by simp
qed

text \<open>
  Claim C10. Whatever the constructor's outcome, the axes' collections are after it
  what they were before, provided the identities registered with the axes are ones
  already allocated. When a frame is constructed, its mesh was appended by
  \<open>pcolormesh\<close> and is no longer among the collections.
\<close>

theorem capture_leaves_collections:
  assumes "ids_allocated ax"
  shows "collections (snd (RenderCapture_init ax r)) = collections ax
       \<and> (\<forall>rc. fst (RenderCapture_init ax r) = Inr rc \<longrightarrow>
            mesh_id (mesh rc) \<notin> set (collections (snd (RenderCapture_init ax r)))
            \<and> mesh_id (mesh rc)
                \<in> set (collections (snd (pcolormesh ax (mesh_X (mesh rc)) (mesh_Y (mesh rc))
                      (mesh_C (mesh rc))))))"
proof -
  from assms have fresh: "next_id ax \<notin> set (collections ax)"
    by (auto simp: ids_allocated_def list_all_iff)
  have c: "collections (snd (RenderCapture_init ax r)) = collections ax"
    by (rule init_collections [OF assms])
  have "mesh_id (mesh rc) = next_id ax
      \<and> collections (snd (pcolormesh ax (mesh_X (mesh rc)) (mesh_Y (mesh rc)) (mesh_C (mesh rc))))
          = collections ax @ [next_id ax]"
    if "fst (RenderCapture_init ax r) = Inr rc" for rc
    using that by (cases rule: init_cases [of r ax]) simp_all
  then show ?thesis
    using c fresh by simp
qed

theorem capture_leaves_collections_witness:
  "ids_allocated example_axes
   \<and> collections example_axes = [0]
   \<and> collections (snd (RenderCapture_init example_axes example_renderer)) = [0]
   \<and> mesh_id (mesh (projr (fst (RenderCapture_init example_axes example_renderer)))) \<noteq> 0"
proof -
  have i: "ids_allocated example_axes"
    by (simp add: ids_allocated_def example_axes_def box_axes_def)
  have c: "collections example_axes = [0]"
    by (simp add: example_axes_def box_axes_def)
  let ?rc = "projr (fst (RenderCapture_init example_axes example_renderer))"
  from init_on_buffer [OF example_buffer_ok example_degenerate(1) example_on_buffer(1)
      example_inset(1)]
  have e: "fst (RenderCapture_init example_axes example_renderer) = Inr ?rc"
    by auto
  from capture_leaves_collections [OF i, of example_renderer]
  have k: "collections (snd (RenderCapture_init example_axes example_renderer))
             = collections example_axes"
    and m: "fst (RenderCapture_init example_axes example_renderer) = Inr ?rc \<longrightarrow>
            mesh_id (mesh ?rc)
              \<notin> set (collections (snd (RenderCapture_init example_axes example_renderer)))"
    by blast+
  show ?thesis
    using k m i c e by simp
qed

section \<open>Properties of the captured region\<close>

text \<open>
  Claim C2, as the code has it. Take a view of \<open>W\<close> by \<open>H\<close> device pixels, both above
  10, and a renderer whose buffer holds \<open>height \<times> width \<times> 4\<close> bytes and contains
  the inset rectangle. Then \<open>px\<close> has \<open>W - 10\<close> entries and \<open>py\<close> has \<open>H - 10\<close>,
  starting 5 pixels after the lower corner and ending 5 pixels before the upper one;
  the constructor succeeds, and the cropped image has the shape \<open>H - 10\<close> by
  \<open>W - 10\<close>, with that many rows of that many pixels of 4 channels.
\<close>

theorem inset_dimensions:
  assumes "10 < device_width ax" and "10 < device_height ax"
    and "buffer_ok r" and "inset_on_buffer ax r"
  shows "int (length (fst (get_corners ax))) = device_width ax - 10
       \<and> int (length (fst (snd (get_corners ax)))) = device_height ax - 10
       \<and> hd (fst (get_corners ax)) = fst (fst (device_corners ax)) + 5
       \<and> last (fst (get_corners ax)) = fst (snd (device_corners ax)) - 1 - 5
       \<and> hd (fst (snd (get_corners ax))) = snd (fst (device_corners ax)) + 5
       \<and> last (fst (snd (get_corners ax))) = snd (snd (device_corners ax)) - 1 - 5
       \<and> (\<exists>rc ax'. RenderCapture_init ax r = (Inr rc, ax')
             \<and> int (nrows (data (im rc))) = device_height ax - 10
             \<and> int (ncols (data (im rc))) = device_width ax - 10
             \<and> int (length (cells (data (im rc)))) = device_height ax - 10
             \<and> (\<forall>row \<in> set (cells (data (im rc))).
                  int (length row) = device_width ax - 10 \<and> (\<forall>p \<in> set row. length p = 4)))"
proof -
  obtain x0 y0 x1 y1 where d: "device_corners ax = ((x0, y0), (x1, y1))"
    by (metis surj_pair)
  have w: "device_width ax = x1 - x0" and h: "device_height ax = y1 - y0"
    by (simp_all add: device_width_def device_height_def d)
  note i = inset_no_wrap [OF d assms(1,2)]
  from assms(1,2) w h have lt: "x0 + 5 < x1 - 5" "y0 + 5 < y1 - 5" by simp_all
  have px: "fst (get_corners ax) = [x0 + 5..x1 - 5 - 1]"
    and py: "fst (snd (get_corners ax)) = [y0 + 5..y1 - 5 - 1]"
    using get_corners_px_py [OF i] by (simp_all add: arange_def)
  have spans: "int (length (fst (get_corners ax))) = device_width ax - 10"
    "int (length (fst (snd (get_corners ax)))) = device_height ax - 10"
    "hd (fst (get_corners ax)) = fst (fst (device_corners ax)) + 5"
    "last (fst (get_corners ax)) = fst (snd (device_corners ax)) - 1 - 5"
    "hd (fst (snd (get_corners ax))) = snd (fst (device_corners ax)) + 5"
    "last (fst (snd (get_corners ax))) = snd (snd (device_corners ax)) - 1 - 5"
    using lt by (simp_all add: px py d w h hd_upto_le last_upto_le)
  from lt i have nd: "\<not> degenerate ax" by (simp add: degenerate_corners)
  from init_on_buffer [OF assms(3) nd assms(4) i] obtain rc where
    rc: "fst (RenderCapture_init ax r) = Inr rc"
    and sh: "nrows (data (im rc)) = nat (y1 - 5 - (y0 + 5))"
      "ncols (data (im rc)) = nat (x1 - 5 - (x0 + 5))"
      "length (cells (data (im rc))) = nat (y1 - 5 - (y0 + 5))"
      "\<forall>row \<in> set (cells (data (im rc))).
          length row = nat (x1 - 5 - (x0 + 5)) \<and> (\<forall>p \<in> set row. length p = 4)"
    by blast
  from rc obtain ax' where e: "RenderCapture_init ax r = (Inr rc, ax')"
    by (cases "RenderCapture_init ax r") simp
  have "int (nrows (data (im rc))) = device_height ax - 10
      \<and> int (ncols (data (im rc))) = device_width ax - 10
      \<and> int (length (cells (data (im rc)))) = device_height ax - 10
      \<and> (\<forall>row \<in> set (cells (data (im rc))).
            int (length row) = device_width ax - 10 \<and> (\<forall>p \<in> set row. length p = 4))"
    using sh lt by (simp add: w h)
  with e spans show ?thesis by blast
qed

theorem inset_dimensions_witness:
  "10 < device_width example_axes \<and> 10 < device_height example_axes
   \<and> buffer_ok example_renderer \<and> inset_on_buffer example_axes example_renderer
   \<and> device_width example_axes - 10 = 2 \<and> device_height example_axes - 10 = 3
   \<and> fst (get_corners example_axes) = [5, 6]
   \<and> fst (snd (get_corners example_axes)) = [5, 6, 7]
   \<and> int (length (fst (get_corners example_axes))) = 2
   \<and> int (length (fst (snd (get_corners example_axes)))) = 3
   \<and> int (nrows (data (im (projr (fst (RenderCapture_init example_axes example_renderer)))))) = 3
   \<and> int (ncols (data (im (projr (fst (RenderCapture_init example_axes example_renderer)))))) = 2"
proof -
  have p: "fst (get_corners example_axes) = [5, 6]"
    "fst (snd (get_corners example_axes)) = [5, 6, 7]"
    by (simp_all add: get_corners_px_py [OF example_inset(1)] arange_def upto.simps)
  have a: "10 < device_width example_axes" "10 < device_height example_axes"
    by (simp_all add: example_sizes)
  from inset_dimensions [OF a example_buffer_ok example_on_buffer(1)]
  obtain rc ax' where "RenderCapture_init example_axes example_renderer = (Inr rc, ax')"
    "int (nrows (data (im rc))) = device_height example_axes - 10"
    "int (ncols (data (im rc))) = device_width example_axes - 10"
    by blast
  then show ?thesis
    using inset_dimensions [OF a example_buffer_ok example_on_buffer(1)] p example_buffer_ok
      example_on_buffer(1)
    by (simp add: example_sizes)
qed

text \<open>
  Claim C2 as it is written fails on a view 20 pixels wide drawn on a renderer of 12
  columns: \<open>px\<close> has 10 entries, the crop of the buffer has 7 columns, and the
  constructor ends in the \<^verbatim>\<open>TypeError\<close> of \<open>pcolormesh\<close>, so no frame is captured.
\<close>

theorem inset_dimensions_counterexample:
  "10 < device_width wide_axes \<and> 10 < device_height wide_axes
   \<and> buffer_ok example_renderer
   \<and> device_width wide_axes - 10 = 10
   \<and> length (fst (get_corners wide_axes)) = 10
   \<and> crop (projr (extract_image example_renderer)) (fst (snd (get_corners wide_axes)))
        (fst (get_corners wide_axes))
       = Inr \<lparr>nrows = 3, ncols = 7, cells = replicate 3 (replicate 7 (replicate 4 0))\<rparr>
   \<and> fst (RenderCapture_init wide_axes example_renderer) = Inl TypeError"
proof -
  have p: "length (fst (get_corners wide_axes)) = 10"
    by (simp add: get_corners_px_py [OF example_inset(3)] length_arange)
  have c: "crop (projr (extract_image example_renderer)) (fst (snd (get_corners wide_axes)))
        (fst (get_corners wide_axes))
       = Inr \<lparr>nrows = 3, ncols = 7, cells = replicate 3 (replicate 7 (replicate 4 0))\<rparr>"
    by (simp add: get_corners_px_py [OF example_inset(3)] example_image crop_window
        example_windows)
  have "\<not> shape_fits (nat (15 - 5)) (nat (8 - 5))
      (window \<lparr>nrows = 13, ncols = 12,
                cells = replicate 13 (replicate 12 (replicate 4 (0::byte)))\<rparr> 5 8 5 15)"
    by (simp add: example_windows shape_fits_def)
  from init_mismatch [OF example_image example_inset(3) _ _ this]
  have t: "fst (RenderCapture_init wide_axes example_renderer) = Inl TypeError"
    by simp
  show ?thesis
    using p c t example_buffer_ok by (simp add: example_sizes)
qed

section \<open>The extent of a captured frame\<close>

lemma transform_roundtrip:
  assumes inv: "\<forall>p. \<bar>fst (T (Ti p)) - fst p\<bar> \<le> eps \<and> \<bar>snd (T (Ti p)) - snd p\<bar> \<le> eps"
    and sepx: "\<forall>x y y'. fst (T (x, y)) = fst (T (x, y'))"
    and sepy: "\<forall>x x' y. snd (T (x, y)) = snd (T (x', y))"
  shows "\<bar>fst (T (fst (Ti (u, u)), snd (Ti (v, v)))) - u\<bar> \<le> (eps::real)"
    and "\<bar>snd (T (fst (Ti (u, u)), snd (Ti (v, v)))) - v\<bar> \<le> eps"
proof -
  let ?a = "Ti (u, u)" and ?b = "Ti (v, v)"
  have "fst (T (fst ?a, snd ?b)) = fst (T (fst ?a, snd ?a))"
    using sepx by blast
  then have "fst (T (fst ?a, snd ?b)) = fst (T ?a)" by simp
  moreover have "\<bar>fst (T ?a) - fst (u, u)\<bar> \<le> eps" using inv by blast
  ultimately show "\<bar>fst (T (fst ?a, snd ?b)) - u\<bar> \<le> eps" by simp
  have "snd (T (fst ?a, snd ?b)) = snd (T (fst ?b, snd ?b))"
    using sepy by blast
  then have "snd (T (fst ?a, snd ?b)) = snd (T ?b)" by simp
  moreover have "\<bar>snd (T ?b) - snd (v, v)\<bar> \<le> eps" using inv by blast
  ultimately show "\<bar>snd (T (fst ?a, snd ?b)) - v\<bar> \<le> eps" by simp
qed

lemma init_extent:
  assumes "fst (RenderCapture_init ax r) = Inr rc"
    and "inset_corners ax = ((cx0, cy0), (cx1, cy1))"
  shows "extent (im rc) =
           (fst (transData_inverted ax (view ax) (real_of_int cx0, real_of_int cx0)),
            fst (transData_inverted ax (view ax) (real_of_int (cx1 - 1), real_of_int (cx1 - 1))),
            snd (transData_inverted ax (view ax) (real_of_int cy0, real_of_int cy0)),
            snd (transData_inverted ax (view ax) (real_of_int (cy1 - 1), real_of_int (cy1 - 1))))"
proof -
  from assms(1) obtain img where img: "extract_image r = Inr img"
    by (cases "extract_image r") (simp_all add: init_bad_buffer)
  have nd: "\<not> degenerate ax"
    using assms(1) init_degenerate [OF img] by auto
  with assms(2) have lt: "cx0 < cx1" "cy0 < cy1"
    by (simp_all add: degenerate_corners)
  have f: "shape_fits (nat (cx1 - cx0)) (nat (cy1 - cy0)) (window img cy0 cy1 cx0 cx1)"
  proof (rule ccontr)
    assume "\<not> shape_fits (nat (cx1 - cx0)) (nat (cy1 - cy0)) (window img cy0 cy1 cx0 cx1)"
    from init_mismatch [OF img assms(2) lt this] assms(1) show False by simp
  qed
  from init_nondegenerate(1) [OF img assms(2) lt f] assms(1) show ?thesis
    by auto
qed

text \<open>
  Claim C8, as the code has it. Take a transform that maps x and y separately, and an
  inverted transform whose round trip moves each device coordinate by at most \<open>eps\<close>
  (floats are read as real numbers; \<open>eps\<close> stands for the rounding of the two
  transforms). The stored extent, mapped back by the transform of the time of
  capture, is within \<open>eps\<close> of the lower inset corner and within \<open>eps\<close> of the last
  pixel inside the upper inset corner, hence within \<open>1 + eps\<close> of the upper inset
  corner in each coordinate.
\<close>

theorem extent_fidelity:
  assumes "fst (RenderCapture_init ax r) = Inr rc"
    and "\<forall>p. \<bar>fst (transData ax (view ax) (transData_inverted ax (view ax) p)) - fst p\<bar> \<le> eps
           \<and> \<bar>snd (transData ax (view ax) (transData_inverted ax (view ax) p)) - snd p\<bar> \<le> eps"
    and "\<forall>x y y'. fst (transData ax (view ax) (x, y)) = fst (transData ax (view ax) (x, y'))"
    and "\<forall>x x' y. snd (transData ax (view ax) (x, y)) = snd (transData ax (view ax) (x', y))"
  shows "case extent (im rc) of (e0, e1, e2, e3) \<Rightarrow>
         (case inset_corners ax of ((cx0, cy0), (cx1, cy1)) \<Rightarrow>
            \<bar>fst (transData ax (view ax) (e0, e2)) - real_of_int cx0\<bar> \<le> eps
            \<and> \<bar>snd (transData ax (view ax) (e0, e2)) - real_of_int cy0\<bar> \<le> eps
            \<and> \<bar>fst (transData ax (view ax) (e1, e3)) - (real_of_int cx1 - 1)\<bar> \<le> eps
            \<and> \<bar>snd (transData ax (view ax) (e1, e3)) - (real_of_int cy1 - 1)\<bar> \<le> eps
            \<and> \<bar>fst (transData ax (view ax) (e1, e3)) - real_of_int cx1\<bar> \<le> 1 + eps
            \<and> \<bar>snd (transData ax (view ax) (e1, e3)) - real_of_int cy1\<bar> \<le> 1 + eps)"
proof -
  obtain cx0 cy0 cx1 cy1 where i: "inset_corners ax = ((cx0, cy0), (cx1, cy1))"
    by (metis surj_pair)
  let ?T = "transData ax (view ax)" and ?Ti = "transData_inverted ax (view ax)"
  note rt = transform_roundtrip [of ?T ?Ti eps, OF assms(2,3,4)]
  let ?lo = "(fst (?Ti (real_of_int cx0, real_of_int cx0)), snd (?Ti (real_of_int cy0, real_of_int cy0)))"
  let ?hi = "(fst (?Ti (real_of_int (cx1 - 1), real_of_int (cx1 - 1))),
              snd (?Ti (real_of_int (cy1 - 1), real_of_int (cy1 - 1))))"
  have lo: "\<bar>fst (?T ?lo) - real_of_int cx0\<bar> \<le> eps" "\<bar>snd (?T ?lo) - real_of_int cy0\<bar> \<le> eps"
    using rt [of "real_of_int cx0" "real_of_int cy0"] by simp_all
  have hi: "\<bar>fst (?T ?hi) - (real_of_int cx1 - 1)\<bar> \<le> eps"
    "\<bar>snd (?T ?hi) - (real_of_int cy1 - 1)\<bar> \<le> eps"
    using rt [of "real_of_int (cx1 - 1)" "real_of_int (cy1 - 1)"] by simp_all
  then have hi1: "\<bar>fst (?T ?hi) - real_of_int cx1\<bar> \<le> 1 + eps"
    "\<bar>snd (?T ?hi) - real_of_int cy1\<bar> \<le> 1 + eps"
    by linarith+
  show ?thesis
    using lo hi hi1 by (simp add: init_extent [OF assms(1) i] i)
qed

lemma drift_facts:
  "view drift_axes = ((''linear'', ''linear''), ((0, 6), (0, 13 / 2)))"
  "inset_corners drift_axes = ((5, 5), (7, 8))"
  "fst (RenderCapture_init drift_axes example_renderer)
     = Inr (projr (fst (RenderCapture_init drift_axes example_renderer)))"
  "extent (im (projr (fst (RenderCapture_init drift_axes example_renderer))))
     = (5 / 2 - 1 / 1024, 3 - 1 / 1024, 5 / 2 - 1 / 1024, 7 / 2 - 1 / 1024)"
  "transData drift_axes (view drift_axes) (x, y) = (2 * x, 2 * y)"
  "transData_inverted drift_axes (view drift_axes) (u, w) = (u / 2 - 1 / 1024, w / 2 - 1 / 1024)"
proof -
  show v: "view drift_axes = ((''linear'', ''linear''), ((0, 6), (0, 13 / 2)))"
    by (simp add: view_def drift_axes_def example_axes_def box_axes_def)
  show t: "transData drift_axes (view drift_axes) (x, y) = (2 * x, 2 * y)" for x y
    unfolding v by (simp add: drift_axes_def example_axes_def box_axes_def)
  show ti: "transData_inverted drift_axes (view drift_axes) (u, w)
      = (u / 2 - 1 / 1024, w / 2 - 1 / 1024)" for u w
    by (simp add: drift_axes_def)
  have d: "device_corners drift_axes = ((0, 0), (12, 13))"
    by (simp add: device_corners_def Let_def t astype_int_def)
      (simp add: drift_axes_def example_axes_def box_axes_def)
  show i: "inset_corners drift_axes = ((5, 5), (7, 8))"
    by (simp add: inset_corners_def d int64_def)
  have nd: "\<not> degenerate drift_axes"
    by (simp add: degenerate_corners [OF i])
  have ob: "inset_on_buffer drift_axes example_renderer"
    by (simp add: inset_on_buffer_def i example_renderer_def)
  from init_on_buffer [OF example_buffer_ok nd ob i]
  show e: "fst (RenderCapture_init drift_axes example_renderer)
     = Inr (projr (fst (RenderCapture_init drift_axes example_renderer)))"
    by auto
  show "extent (im (projr (fst (RenderCapture_init drift_axes example_renderer))))
     = (5 / 2 - 1 / 1024, 3 - 1 / 1024, 5 / 2 - 1 / 1024, 7 / 2 - 1 / 1024)"
    unfolding init_extent [OF e i] by (simp add: ti)
qed

lemma shear_facts:
  "inset_corners shear_axes = ((5, 5), (7, 8))"
  "fst (RenderCapture_init shear_axes example_renderer)
     = Inr (projr (fst (RenderCapture_init shear_axes example_renderer)))"
  "extent (im (projr (fst (RenderCapture_init shear_axes example_renderer))))
     = (5 / 2, 3, 5 / 4, 7 / 4)"
  "transData shear_axes (view shear_axes) (x, y) = (2 * x, 2 * y + x)"
  "transData_inverted shear_axes (view shear_axes) (u, w) = (u / 2, (w - u / 2) / 2)"
proof -
  show t: "transData shear_axes (view shear_axes) (x, y) = (2 * x, 2 * y + x)" for x y
    by (simp add: shear_axes_def)
  show ti: "transData_inverted shear_axes (view shear_axes) (u, w) = (u / 2, (w - u / 2) / 2)"
    for u w
    by (simp add: shear_axes_def)
  have d: "device_corners shear_axes = ((0, 0), (12, 13))"
    by (simp add: device_corners_def Let_def t astype_int_def)
      (simp add: shear_axes_def example_axes_def box_axes_def)
  show i: "inset_corners shear_axes = ((5, 5), (7, 8))"
    by (simp add: inset_corners_def d int64_def)
  have nd: "\<not> degenerate shear_axes"
    by (simp add: degenerate_corners [OF i])
  have ob: "inset_on_buffer shear_axes example_renderer"
    by (simp add: inset_on_buffer_def i example_renderer_def)
  from init_on_buffer [OF example_buffer_ok nd ob i]
  show e: "fst (RenderCapture_init shear_axes example_renderer)
     = Inr (projr (fst (RenderCapture_init shear_axes example_renderer)))"
    by auto
  show "extent (im (projr (fst (RenderCapture_init shear_axes example_renderer))))
     = (5 / 2, 3, 5 / 4, 7 / 4)"
    unfolding init_extent [OF e i] by (simp add: ti)
qed

theorem extent_fidelity_witness:
  "fst (RenderCapture_init drift_axes example_renderer)
     = Inr (projr (fst (RenderCapture_init drift_axes example_renderer)))
   \<and> extent (im (projr (fst (RenderCapture_init drift_axes example_renderer))))
       = (5 / 2 - 1 / 1024, 3 - 1 / 1024, 5 / 2 - 1 / 1024, 7 / 2 - 1 / 1024)
   \<and> inset_corners drift_axes = ((5, 5), (7, 8))
   \<and> \<bar>fst (transData drift_axes (view drift_axes) (5 / 2 - 1 / 1024, 5 / 2 - 1 / 1024)) - 5\<bar>
       \<le> 1 / 512
   \<and> \<bar>snd (transData drift_axes (view drift_axes) (3 - 1 / 1024, 7 / 2 - 1 / 1024)) - 8\<bar>
       \<le> 1 + 1 / 512"
proof -
  have inv: "\<forall>p. \<bar>fst (transData drift_axes (view drift_axes)
                       (transData_inverted drift_axes (view drift_axes) p)) - fst p\<bar> \<le> 1 / 512
           \<and> \<bar>snd (transData drift_axes (view drift_axes)
                       (transData_inverted drift_axes (view drift_axes) p)) - snd p\<bar> \<le> 1 / 512"
  proof
    fix p :: "real \<times> real"
    obtain u w where p: "p = (u, w)" by (cases p)
    show "\<bar>fst (transData drift_axes (view drift_axes)
                       (transData_inverted drift_axes (view drift_axes) p)) - fst p\<bar> \<le> 1 / 512
           \<and> \<bar>snd (transData drift_axes (view drift_axes)
                       (transData_inverted drift_axes (view drift_axes) p)) - snd p\<bar> \<le> 1 / 512"
      unfolding p drift_facts(6) drift_facts(5) by simp
  qed
  have sepx: "\<forall>x y y'. fst (transData drift_axes (view drift_axes) (x, y))
                = fst (transData drift_axes (view drift_axes) (x, y'))"
    by (simp add: drift_facts(5))
  have sepy: "\<forall>x x' y. snd (transData drift_axes (view drift_axes) (x, y))
                = snd (transData drift_axes (view drift_axes) (x', y))"
    by (simp add: drift_facts(5))
  have "\<bar>fst (transData drift_axes (view drift_axes) (5 / 2 - 1 / 1024, 5 / 2 - 1 / 1024)) - 5\<bar>
       \<le> 1 / 512
   \<and> \<bar>snd (transData drift_axes (view drift_axes) (3 - 1 / 1024, 7 / 2 - 1 / 1024)) - 8\<bar>
       \<le> 1 + 1 / 512"
    using extent_fidelity [OF drift_facts(3) inv sepx sepy]
    unfolding drift_facts(4) drift_facts(2) by simp
  with drift_facts(2,3,4) show ?thesis by blast
qed

text \<open>
  Claim C8 as it is written fails in two ways. With an inverted transform that is off
  by a 1024th of a data unit the extent's upper end maps back more than one pixel
  from the upper inset corner, since exact transforms already put it at one pixel.
  With an exact transform that lets the device y depend on the data x it maps back a
  pixel and a half away.
\<close>

theorem extent_fidelity_counterexample:
  "fst (RenderCapture_init drift_axes example_renderer)
     = Inr (projr (fst (RenderCapture_init drift_axes example_renderer)))
   \<and> extent (im (projr (fst (RenderCapture_init drift_axes example_renderer))))
       = (5 / 2 - 1 / 1024, 3 - 1 / 1024, 5 / 2 - 1 / 1024, 7 / 2 - 1 / 1024)
   \<and> inset_corners drift_axes = ((5, 5), (7, 8))
   \<and> \<not> \<bar>fst (transData drift_axes (view drift_axes) (3 - 1 / 1024, 7 / 2 - 1 / 1024)) - 7\<bar> \<le> 1
   \<and> fst (RenderCapture_init shear_axes example_renderer)
     = Inr (projr (fst (RenderCapture_init shear_axes example_renderer)))
   \<and> extent (im (projr (fst (RenderCapture_init shear_axes example_renderer))))
       = (5 / 2, 3, 5 / 4, 7 / 4)
   \<and> inset_corners shear_axes = ((5, 5), (7, 8))
   \<and> \<not> \<bar>snd (transData shear_axes (view shear_axes) (3, 7 / 4)) - 8\<bar> \<le> 1"
proof -
  have a: "\<not> \<bar>fst (transData drift_axes (view drift_axes) (3 - 1 / 1024, 7 / 2 - 1 / 1024)) - 7\<bar>
      \<le> 1"
    unfolding drift_facts(5) by simp
  have b: "\<not> \<bar>snd (transData shear_axes (view shear_axes) (3, 7 / 4)) - 8\<bar> \<le> 1"
    unfolding shear_facts(4) by simp
  from a b drift_facts(2,3,4) shear_facts(1,2,3) show ?thesis by blast
qed

end
